theory Spec2Isabelle
  imports Complex_Main "HOL-Library.AList" "HOL-Library.Char_ord" "HOL-Library.List_Lexorder"
begin

section \<open>The file store\<close>

text \<open>
  The transfer code of \<^verbatim>\<open>file_mgmt4.py\<close> works on the operating system's files through
  \<^verbatim>\<open>pathlib\<close>, \<^verbatim>\<open>os\<close> and \<^verbatim>\<open>open\<close>. The store below is the part of the file system
  those calls can see. A path is absolute, the list of its components, the root being the
  empty list. A directory entry names a regular file by the number of its inode (two
  entries with one number are two names of one file: hard links, or a symbolic link and
  its target), a directory, a symbolic link to a directory, a symbolic link whose target
  is missing, or a socket (an entry that is neither a directory nor a regular file and
  cannot be opened). An inode holds the bytes of the file and whether the process may write
  them. \<open>locked\<close> are the directories in which the process may not create or remove entries,
  \<open>unreadable\<close> those it may not scan. The order of \<open>entries\<close> is the order in which a
  directory scan returns them.

  The entries below a link to a directory are what the calls see through the link; the
  store does not tie them to the entries of the link's target, so a change made below one
  is not seen below the other. Times and the other mode bits are not represented.
  Characters are the code points below 256.
\<close>

type_synonym path = "string list"

datatype entry = Reg nat | Folder | DirLink | Dangling | Socket

record inode =
  bytes :: string
  writable :: bool

record filesystem =
  entries :: "(path \<times> entry) list"
  inodes :: "(nat \<times> inode) list"
  locked :: "path list"
  unreadable :: "path list"

text \<open>What \<^verbatim>\<open>stat\<close> finds at a path, links followed.\<close>

datatype node = File string | Dir | Special

datatype oserror =
    FileNotFoundError path
  | IsADirectoryError path
  | NotADirectoryError path
  | FileExistsError path
  | PermissionError path
  | OSError path
  | ValueError path

text \<open>A call either returns or raises; in both cases the state it leaves is kept.\<close>

datatype 'a outcome = Raised oserror 'a | Returned 'a

fun state_of :: "'a outcome \<Rightarrow> 'a" where
  "state_of (Raised e s) = s"
| "state_of (Returned s) = s"

fun raised :: "'a outcome \<Rightarrow> oserror option" where
  "raised (Raised e s) = Some e"
| "raised (Returned s) = None"

text \<open>The entry at a path, links not followed (\<^verbatim>\<open>lstat\<close>); the root is a directory.\<close>

definition lstat :: "filesystem \<Rightarrow> path \<Rightarrow> entry option" where
  "lstat fs p = (if p = [] then Some Folder else map_of (entries fs) p)"

definition bytes_of :: "filesystem \<Rightarrow> nat \<Rightarrow> string" where
  "bytes_of fs i = (case map_of (inodes fs) i of Some nd \<Rightarrow> bytes nd | None \<Rightarrow> [])"

definition is_writable :: "filesystem \<Rightarrow> nat \<Rightarrow> bool" where
  "is_writable fs i = (case map_of (inodes fs) i of Some nd \<Rightarrow> writable nd | None \<Rightarrow> True)"

definition lookup :: "filesystem \<Rightarrow> path \<Rightarrow> node option" where
  "lookup fs p =
     (case lstat fs p of
        None \<Rightarrow> None
      | Some Dangling \<Rightarrow> None
      | Some Folder \<Rightarrow> Some Dir
      | Some DirLink \<Rightarrow> Some Dir
      | Some Socket \<Rightarrow> Some Special
      | Some (Reg i) \<Rightarrow> Some (File (bytes_of fs i)))"

definition path_exists :: "filesystem \<Rightarrow> path \<Rightarrow> bool" where
  "path_exists fs p = (lookup fs p \<noteq> None)"

definition is_dir :: "filesystem \<Rightarrow> path \<Rightarrow> bool" where
  "is_dir fs p = (case lookup fs p of Some Dir \<Rightarrow> True | _ \<Rightarrow> False)"

definition is_file :: "filesystem \<Rightarrow> path \<Rightarrow> bool" where
  "is_file fs p = (case lookup fs p of Some (File c) \<Rightarrow> True | _ \<Rightarrow> False)"

definition content :: "filesystem \<Rightarrow> path \<Rightarrow> string" where
  "content fs p = (case lookup fs p of Some (File c) \<Rightarrow> c | _ \<Rightarrow> [])"

text \<open>\<^verbatim>\<open>os.path.samefile\<close> on two regular files: one inode.\<close>

definition samefile :: "filesystem \<Rightarrow> path \<Rightarrow> path \<Rightarrow> bool" where
  "samefile fs p q =
     (case lstat fs p of Some (Reg i) \<Rightarrow> lstat fs q = Some (Reg i) | _ \<Rightarrow> False)"

definition put_entry :: "filesystem \<Rightarrow> path \<Rightarrow> entry \<Rightarrow> filesystem" where
  "put_entry fs p e = fs\<lparr>entries := AList.update p e (entries fs)\<rparr>"

definition set_bytes :: "filesystem \<Rightarrow> nat \<Rightarrow> string \<Rightarrow> filesystem" where
  "set_bytes fs i c =
     fs\<lparr>inodes := AList.update i \<lparr>bytes = c, writable = is_writable fs i\<rparr> (inodes fs)\<rparr>"

text \<open>A new file gets an inode number that no entry and no inode has.\<close>

fun reg_numbers :: "(path \<times> entry) list \<Rightarrow> nat list" where
  "reg_numbers [] = []"
| "reg_numbers ((p, Reg i) # es) = i # reg_numbers es"
| "reg_numbers ((p, e) # es) = reg_numbers es"

definition fresh_inode :: "filesystem \<Rightarrow> nat" where
  "fresh_inode fs = Suc (foldr max (map fst (inodes fs) @ reg_numbers (entries fs)) 0)"

definition create_file :: "filesystem \<Rightarrow> path \<Rightarrow> filesystem" where
  "create_file fs p = set_bytes (put_entry fs p (Reg (fresh_inode fs))) (fresh_inode fs) []"

subsection \<open>Paths (\<^verbatim>\<open>pathlib.Path\<close>)\<close>

definition parent :: "path \<Rightarrow> path" where
  "parent p = butlast p"

definition name_of :: "path \<Rightarrow> string" where
  "name_of p = (if p = [] then [] else last p)"

text \<open>
  \<^verbatim>\<open>directory / n\<close> for the name \<open>n\<close> parsed from a row of the list box; \<^verbatim>\<open>directory / ""\<close>
  is the directory. The rows are names that a directory scan gave, so they hold no slash
  and one row is one component. The store has no entries named \<^verbatim>\<open>.\<close> or \<^verbatim>\<open>..\<close>: a row that
  parses to one of them (the row of a file named \<^verbatim>\<open>.. - 3 bytes\<close>) is looked up here as a
  name without an entry, where the file system would resolve it.
\<close>

definition joinpath :: "path \<Rightarrow> string \<Rightarrow> path" where
  "joinpath d n = (if n = [] then d else d @ [n])"

definition relative_to :: "path \<Rightarrow> path \<Rightarrow> oserror + path" where
  "relative_to p base =
     (if take (length base) p = base then Inr (drop (length base) p) else Inl (ValueError p))"

subsection \<open>System calls\<close>

text \<open>
  The error for a path without an entry: \<^verbatim>\<open>ENOTDIR\<close> when a proper ancestor is a regular
  file or a socket, \<^verbatim>\<open>ENOENT\<close> otherwise.
\<close>

definition blocks_lookup :: "filesystem \<Rightarrow> path \<Rightarrow> bool" where
  "blocks_lookup fs p =
     (case lstat fs p of Some (Reg i) \<Rightarrow> True | Some Socket \<Rightarrow> True | _ \<Rightarrow> False)"

definition missing_error :: "filesystem \<Rightarrow> path \<Rightarrow> oserror" where
  "missing_error fs p =
     (if list_ex (\<lambda>k. blocks_lookup fs (take k p)) [0..<length p]
      then NotADirectoryError p else FileNotFoundError p)"

definition dir_size :: nat where
  "dir_size = 4096"

definition getsize :: "filesystem \<Rightarrow> path \<Rightarrow> oserror + nat" where
  "getsize fs p =
     (case lookup fs p of
        None \<Rightarrow> Inl (missing_error fs p)
      | Some Dir \<Rightarrow> Inr dir_size
      | Some Special \<Rightarrow> Inr 0
      | Some (File c) \<Rightarrow> Inr (length c))"

text \<open>\<^verbatim>\<open>open(p, "rb")\<close>.\<close>

definition open_rb :: "filesystem \<Rightarrow> path \<Rightarrow> oserror + unit" where
  "open_rb fs p =
     (case lookup fs p of
        None \<Rightarrow> Inl (missing_error fs p)
      | Some Dir \<Rightarrow> Inl (IsADirectoryError p)
      | Some Special \<Rightarrow> Inl (OSError p)
      | Some (File c) \<Rightarrow> Inr ())"

text \<open>
  Creating an entry in the directory of \<open>p\<close>, as \<^verbatim>\<open>open(p, "wb")\<close> and \<^verbatim>\<open>os.mkdir(p)\<close> do when
  \<open>p\<close> has none: the parent must be a directory in which the process may write.
\<close>

definition may_create :: "filesystem \<Rightarrow> path \<Rightarrow> oserror option" where
  "may_create fs p =
     (case lookup fs (parent p) of
        None \<Rightarrow> Some (missing_error fs p)
      | Some (File c) \<Rightarrow> Some (NotADirectoryError p)
      | Some Special \<Rightarrow> Some (NotADirectoryError p)
      | Some Dir \<Rightarrow> if parent p \<in> set (locked fs) then Some (PermissionError p) else None)"

text \<open>
  \<^verbatim>\<open>open(p, "wb")\<close>: an existing regular file is truncated when the process may write it,
  a missing one is created. (A link whose target is missing is taken to point into a
  missing directory.)
\<close>

definition open_wb :: "filesystem \<Rightarrow> path \<Rightarrow> oserror + filesystem" where
  "open_wb fs p =
     (case lstat fs p of
        Some Folder \<Rightarrow> Inl (IsADirectoryError p)
      | Some DirLink \<Rightarrow> Inl (IsADirectoryError p)
      | Some Socket \<Rightarrow> Inl (OSError p)
      | Some Dangling \<Rightarrow> Inl (FileNotFoundError p)
      | Some (Reg i) \<Rightarrow>
          if is_writable fs i then Inr (set_bytes fs i []) else Inl (PermissionError p)
      | None \<Rightarrow>
          (case may_create fs p of
             Some e \<Rightarrow> Inl e
           | None \<Rightarrow> Inr (create_file fs p)))"

text \<open>Reading at most \<open>k\<close> bytes at an offset, and writing a buffer at an offset.\<close>

definition read_at :: "filesystem \<Rightarrow> path \<Rightarrow> nat \<Rightarrow> nat \<Rightarrow> string" where
  "read_at fs p off k = take k (drop off (content fs p))"

definition overwrite :: "string \<Rightarrow> nat \<Rightarrow> string \<Rightarrow> string" where
  "overwrite c off buf =
     take off c @ replicate (off - length c) (CHR 0x00) @ buf @ drop (off + length buf) c"

definition write_at :: "filesystem \<Rightarrow> path \<Rightarrow> nat \<Rightarrow> string \<Rightarrow> filesystem" where
  "write_at fs p off buf =
     (case lstat fs p of
        Some (Reg i) \<Rightarrow> set_bytes fs i (overwrite (bytes_of fs i) off buf)
      | _ \<Rightarrow> fs)"

text \<open>\<^verbatim>\<open>os.mkdir\<close>.\<close>

definition os_mkdir :: "filesystem \<Rightarrow> path \<Rightarrow> oserror + filesystem" where
  "os_mkdir fs p =
     (case lstat fs p of
        Some e \<Rightarrow> Inl (FileExistsError p)
      | None \<Rightarrow>
          (case may_create fs p of
             Some e \<Rightarrow> Inl e
           | None \<Rightarrow> Inr (put_entry fs p Folder)))"

fun is_not_found :: "oserror \<Rightarrow> bool" where
  "is_not_found (FileNotFoundError p) = True"
| "is_not_found e = False"

text \<open>
  \<^verbatim>\<open>Path.mkdir(parents=False, exist_ok=True)\<close> and \<^verbatim>\<open>Path.mkdir(parents=True, exist_ok=True)\<close>:
  \<^verbatim>\<open>
  try: os.mkdir(self, mode)
  except FileNotFoundError:
      if not parents or self.parent == self: raise
      self.parent.mkdir(parents=True, exist_ok=True)
      self.mkdir(mode, parents=False, exist_ok=exist_ok)
  except OSError:
      if not exist_ok or not self.is_dir(): raise
  \<close>
\<close>

definition mkdir_exist_ok :: "filesystem \<Rightarrow> path \<Rightarrow> filesystem outcome" where
  "mkdir_exist_ok fs p =
     (case os_mkdir fs p of
        Inr fs' \<Rightarrow> Returned fs'
      | Inl e \<Rightarrow> if is_not_found e then Raised e fs
                 else if is_dir fs p then Returned fs else Raised e fs)"

function mkdir :: "filesystem \<Rightarrow> path \<Rightarrow> filesystem outcome" where
  "mkdir fs p =
     (case os_mkdir fs p of
        Inr fs' \<Rightarrow> Returned fs'
      | Inl e \<Rightarrow>
          if is_not_found e then
            (if parent p = p then Raised e fs
             else (case mkdir fs (parent p) of
                     Raised e' fs1 \<Rightarrow> Raised e' fs1
                   | Returned fs1 \<Rightarrow> mkdir_exist_ok fs1 p))
          else if is_dir fs p then Returned fs else Raised e fs)"
  by pat_completeness auto
termination
  by (relation "measure (\<lambda>(fs, p). length p)") (auto simp: parent_def intro: Nat.diff_less)

declare mkdir.simps [simp del]

text \<open>
  \<^verbatim>\<open>Path.unlink\<close>: removes the entry, whatever it names (a link to a directory too), unless
  it is a directory.
\<close>

definition unlink :: "filesystem \<Rightarrow> path \<Rightarrow> oserror + filesystem" where
  "unlink fs p =
     (case lstat fs p of
        None \<Rightarrow> Inl (missing_error fs p)
      | Some Folder \<Rightarrow> Inl (IsADirectoryError p)
      | Some e \<Rightarrow>
          if parent p \<in> set (locked fs) then Inl (PermissionError p)
          else Inr (fs\<lparr>entries := AList.delete p (entries fs)\<rparr>))"

text \<open>\<^verbatim>\<open>os.scandir\<close>: the names of the entries of a directory, in the store's order.\<close>

definition scandir :: "filesystem \<Rightarrow> path \<Rightarrow> string list" where
  "scandir fs d = map last [p \<leftarrow> remdups (map fst (entries fs)). p \<noteq> [] \<and> butlast p = d]"

text \<open>
  \<^verbatim>\<open>os.walk(top)\<close>, top-down, not following links and ignoring scan errors: the triple of
  the directory itself (its entries that are directories or links to directories, and all
  its other entries), then the walks of its subdirectories in order, those that are links
  left out. A directory that cannot be scanned gives nothing.
\<close>

definition depth_bound :: "filesystem \<Rightarrow> nat" where
  "depth_bound fs = foldr max (map (length \<circ> fst) (entries fs)) 0"

lemma length_le_foldr_max:
  "(p, e) \<in> set al \<Longrightarrow> length p \<le> foldr max (map (length \<circ> fst) al) 0"
  by (induction al) auto

lemma is_dir_depth_bound: "is_dir fs p \<Longrightarrow> length p \<le> depth_bound fs"
  unfolding is_dir_def lookup_def lstat_def depth_bound_def
  by (auto split: if_splits option.splits node.splits entry.splits
           dest!: map_of_SomeD length_le_foldr_max)

function os_walk :: "filesystem \<Rightarrow> path \<Rightarrow> (path \<times> string list \<times> string list) list" where
  "os_walk fs dirpath =
     (if \<not> is_dir fs dirpath \<or> dirpath \<in> set (unreadable fs) then []
      else let names = scandir fs dirpath;
               dirs = [n \<leftarrow> names. is_dir fs (dirpath @ [n])];
               nondirs = [n \<leftarrow> names. \<not> is_dir fs (dirpath @ [n])]
           in (dirpath, dirs, nondirs)
              # concat (map (\<lambda>n. os_walk fs (dirpath @ [n]))
                            [n \<leftarrow> dirs. lstat fs (dirpath @ [n]) \<noteq> Some DirLink]))"
  by pat_completeness auto

termination
  by (relation "measure (\<lambda>(fs, dirpath). Suc (depth_bound fs) - length dirpath)")
     (auto dest!: is_dir_depth_bound)

declare os_walk.simps [simp del]

section \<open>Path Enumerator\<close>

text \<open>
  \<^verbatim>\<open>
  def _collect_all_files(self, paths):
      all_files = []
      for p in paths:
          if p.is_file(): all_files.append(p)
          elif p.is_dir():
              for root, _, files in os.walk(p):
                  for f in files: all_files.append(Path(root) / f)
      return all_files
  \<close>
\<close>

definition walk_files :: "filesystem \<Rightarrow> path \<Rightarrow> path list" where
  "walk_files fs p =
     concat (map (\<lambda>(dirpath, dirs, files). map (\<lambda>f. dirpath @ [f]) files) (os_walk fs p))"

definition collect_all_files :: "filesystem \<Rightarrow> path list \<Rightarrow> path list" where
  "collect_all_files fs paths =
     concat (map (\<lambda>p. if is_file fs p then [p]
                      else if is_dir fs p then walk_files fs p
                      else []) paths)"

text \<open>
  The relative path of the loops of \<^verbatim>\<open>_copy_files\<close> and \<^verbatim>\<open>_move_files\<close>:
  \<^verbatim>\<open>
  if len(files) == 1 and files[0].is_dir(): rel_path = p.relative_to(files[0].parent)
  else:                                     rel_path = p.name
  \<close>
\<close>

definition name_path :: "path \<Rightarrow> path" where
  "name_path p = joinpath [] (name_of p)"

definition rel_path :: "filesystem \<Rightarrow> path list \<Rightarrow> path \<Rightarrow> oserror + path" where
  "rel_path fs files p =
     (if length files = 1 \<and> is_dir fs (hd files) then relative_to p (parent (hd files))
      else Inr (name_path p))"

section \<open>Pane state\<close>

text \<open>
  The fields of \<^verbatim>\<open>class Pane\<close> that the transfer code reads or writes. \<open>selected_rows\<close>
  are the rows \<^verbatim>\<open>listbox.get(i)\<close> for \<^verbatim>\<open>i\<close> in \<^verbatim>\<open>listbox.curselection()\<close>;
  \<open>progress_value\<close> and \<open>progress_maximum\<close> are the two options of the progress bar
  widget. Python computes them in floating point; here they are rationals, so rounding is
  not modelled. \<open>progress_calls\<close> is a history variable: the arguments of every call of
  \<^verbatim>\<open>_set_progress\<close> so far (each call ends with a redraw, \<^verbatim>\<open>update_idletasks\<close>).
  The percentage label, the status line and the row colours are not represented.
\<close>

record pane =
  directory :: "path option"
  selected_rows :: "string list"
  listbox_rows :: "string list"
  current_items :: "string list"
  progress_value :: rat
  progress_maximum :: rat
  progress_calls :: "(rat \<times> rat) list"
  done_shown :: bool

text \<open>
  \<^verbatim>\<open>
  def _set_progress(self, value, maximum):
      self.progress["maximum"] = max(1, maximum)
      self.progress["value"] = max(0, min(value, self.progress["maximum"]))
  def _reset_progress(self):
      self._set_progress(0, self.progress["maximum"])
  \<close>
\<close>

definition set_progress :: "pane \<Rightarrow> rat \<Rightarrow> rat \<Rightarrow> pane" where
  "set_progress pn v m =
     (let mx = max 1 m
      in pn\<lparr>progress_value := max 0 (min v mx),
            progress_maximum := mx,
            progress_calls := progress_calls pn @ [(v, m)]\<rparr>)"

definition reset_progress :: "pane \<Rightarrow> pane" where
  "reset_progress pn = set_progress pn 0 (progress_maximum pn)"

text \<open>\<^verbatim>\<open>flash_success\<close> shows the "Done!" label; its timer callback runs after the call.\<close>

definition flash_success :: "pane \<Rightarrow> pane" where
  "flash_success pn = pn\<lparr>done_shown := True\<rparr>"

datatype dialog = ShowInfo string string | ShowError string string oserror

subsection \<open>Listing a directory\<close>

text \<open>
  \<^verbatim>\<open>update_list_with_progress\<close> empties the list box (which clears the selection), inserts
  the rows one by one with a progress update after each, and resets the progress.
\<close>

fun insert_rows :: "pane \<Rightarrow> nat \<Rightarrow> nat \<Rightarrow> string list \<Rightarrow> pane" where
  "insert_rows pn i n_items [] = pn"
| "insert_rows pn i n_items (item # items) =
     insert_rows (set_progress (pn\<lparr>listbox_rows := listbox_rows pn @ [item]\<rparr>)
                               (of_nat i) (of_nat (max 1 n_items)))
                 (Suc i) n_items items"

definition update_list_with_progress :: "pane \<Rightarrow> string list \<Rightarrow> pane" where
  "update_list_with_progress pn items =
     (let n_items = length items;
          pn1 = set_progress (pn\<lparr>listbox_rows := [], selected_rows := []\<rparr>)
                             0 (of_nat (max 1 n_items));
          pn2 = insert_rows pn1 1 n_items items
      in reset_progress (pn2\<lparr>current_items := items\<rparr>))"

text \<open>\<^verbatim>\<open>str.lower\<close> on the code points below 256.\<close>

definition lower_char :: "char \<Rightarrow> char" where
  "lower_char c =
     (if (CHR ''A'' \<le> c \<and> c \<le> CHR ''Z'')
         \<or> (CHR 0xC0 \<le> c \<and> c \<le> CHR 0xDE \<and> c \<noteq> CHR 0xD7)
      then char_of (of_char c + (32::nat)) else c)"

definition lower :: "string \<Rightarrow> string" where
  "lower s = map lower_char s"

text \<open>
  \<^verbatim>\<open>list_all\<close> (and \<^verbatim>\<open>list_contents\<close>, which calls it): folders with a trailing slash,
  then the other entries, each group sorted without regard to case; a directory that
  cannot be scanned gives an error dialog and an empty list.
\<close>

definition list_all :: "filesystem \<Rightarrow> pane \<Rightarrow> dialog list \<Rightarrow> pane \<times> dialog list" where
  "list_all fs pn dl =
     (case directory pn of
        None \<Rightarrow> (pn, dl)
      | Some d \<Rightarrow>
          (case (case lookup fs d of
                   None \<Rightarrow> Some (missing_error fs d)
                 | Some (File c) \<Rightarrow> Some (NotADirectoryError d)
                 | Some Special \<Rightarrow> Some (NotADirectoryError d)
                 | Some Dir \<Rightarrow> if d \<in> set (unreadable fs) then Some (PermissionError d)
                               else None) of
             Some e \<Rightarrow> (update_list_with_progress pn [],
                        dl @ [ShowError ''List All'' ''Couldn't read directory:'' e])
           | None \<Rightarrow>
               (let names = scandir fs d;
                    dirs = [n @ ''/''. n \<leftarrow> names, lstat fs (d @ [n]) = Some Folder];
                    files = [n. n \<leftarrow> names, lstat fs (d @ [n]) \<noteq> Some Folder];
                    items = sort_key lower dirs @ sort_key lower files
                in (update_list_with_progress pn items, dl))))"

definition list_contents :: "filesystem \<Rightarrow> pane \<Rightarrow> dialog list \<Rightarrow> pane \<times> dialog list" where
  "list_contents fs pn dl = list_all fs pn dl"

subsection \<open>The selection\<close>

text \<open>
  \<^verbatim>\<open>
  def _parse_entry_to_name(self, entry):
      name = entry.rstrip("/")
      if " - " in name and name.split(" - ")[-1].strip().endswith("bytes"):
          name = " - ".join(name.split(" - ")[:-1])
      return name
  \<close>
\<close>

definition rstrip_slash :: "string \<Rightarrow> string" where
  "rstrip_slash s = rev (dropWhile (\<lambda>c. c = CHR ''/'') (rev s))"

function split_dash :: "string \<Rightarrow> string \<Rightarrow> string list" where
  "split_dash acc [] = [rev acc]"
| "split_dash acc (c # cs) =
     (if take 3 (c # cs) = '' - '' then rev acc # split_dash [] (drop 2 cs)
      else split_dash (c # acc) cs)"
  by pat_completeness auto
termination
  by (relation "measure (\<lambda>(acc, s). length s)") auto

text \<open>The white space that \<^verbatim>\<open>str.strip\<close> removes, among the code points below 256.\<close>

definition is_space :: "char \<Rightarrow> bool" where
  "is_space c = (c \<in> {CHR '' '', CHR 0x09, CHR 0x0A, CHR 0x0B, CHR 0x0C, CHR 0x0D,
                       CHR 0x1C, CHR 0x1D, CHR 0x1E, CHR 0x1F, CHR 0x85, CHR 0xA0})"

definition strip :: "string \<Rightarrow> string" where
  "strip s = rev (dropWhile is_space (rev (dropWhile is_space s)))"

definition endswith :: "string \<Rightarrow> string \<Rightarrow> bool" where
  "endswith s suffix = (length suffix \<le> length s \<and> drop (length s - length suffix) s = suffix)"

fun join_dash :: "string list \<Rightarrow> string" where
  "join_dash [] = []"
| "join_dash [x] = x"
| "join_dash (x # y # ys) = x @ '' - '' @ join_dash (y # ys)"

definition parse_entry_to_name :: "string \<Rightarrow> string" where
  "parse_entry_to_name entry =
     (let name = rstrip_slash entry;
          parts = split_dash [] name
      in if length parts > 1 \<and> endswith (strip (last parts)) ''bytes''
         then join_dash (butlast parts) else name)"

text \<open>
  \<^verbatim>\<open>
  def get_selected_paths(self):
      if not self.directory: return []
      ...
      for n in names:
          p = (self.directory / n)
          try:
              if p.exists(): paths.append(p)
          except Exception: continue
      return paths
  \<close>
\<close>

definition get_selected_paths :: "filesystem \<Rightarrow> pane \<Rightarrow> path list" where
  "get_selected_paths fs pn =
     (case directory pn of
        None \<Rightarrow> []
      | Some d \<Rightarrow> [p \<leftarrow> map (\<lambda>r. joinpath d (parse_entry_to_name r)) (selected_rows pn).
                    path_exists fs p])"

section \<open>Chunked Copier\<close>

text \<open>
  \<^verbatim>\<open>
  def _copy_with_progress(self, src_path, dst_path, pane, file_index, total_files):
      try: total_size = os.path.getsize(src_path)
      except Exception: total_size = 0
      copied = 0
      chunk_size = 1024 * 1024
      with open(src_path, "rb") as src_f, open(dst_path, "wb") as dst_f:
          while True:
              buf = src_f.read(chunk_size)
              if not buf: break
              dst_f.write(buf)
              copied += len(buf)
              if total_size > 0:
                  pane._set_progress((file_index - 1) + (copied / total_size), total_files)
              else:
                  pane._set_progress(file_index - 0.5, total_files)
      try: shutil.copystat(src_path, dst_path)
      except Exception: pass
      pane._set_progress(file_index, total_files)
  \<close>
  Both handles start at offset 0 and advance by the length of each buffer, so at the head
  of the loop the read offset and the write offset are both \<open>copied\<close>. Reads and writes go
  to the inode directly (no buffering), which makes a copy of a file onto itself visible:
  the file is emptied by the second \<^verbatim>\<open>open\<close> before the first read.
\<close>

lemma lstat_root [simp]: "lstat fs [] = Some Folder"
  by (simp add: lstat_def)

lemma lookup_root [simp]: "lookup fs [] = Some Dir"
  by (simp add: lookup_def)

lemma lstat_set_bytes [simp]: "lstat (set_bytes fs i c) q = lstat fs q"
  by (simp add: lstat_def set_bytes_def)

lemma bytes_of_set_bytes: "bytes_of (set_bytes fs i c) j = (if j = i then c else bytes_of fs j)"
  by (simp add: bytes_of_def set_bytes_def update_conv')

lemma is_writable_set_bytes [simp]: "is_writable (set_bytes fs i c) j = is_writable fs j"
  by (simp add: is_writable_def set_bytes_def update_conv')

lemma locked_set_bytes [simp]: "locked (set_bytes fs i c) = locked fs"
  by (simp add: set_bytes_def)

lemma unreadable_set_bytes [simp]: "unreadable (set_bytes fs i c) = unreadable fs"
  by (simp add: set_bytes_def)


lemma lstat_put_entry:
  "lstat (put_entry fs p e) q = (if q = [] then Some Folder else if q = p then Some e else lstat fs q)"
  by (simp add: lstat_def put_entry_def update_conv')

lemma bytes_of_put_entry [simp]: "bytes_of (put_entry fs p e) i = bytes_of fs i"
  by (simp add: bytes_of_def put_entry_def)

lemma content_write_at:
  "content (write_at fs d off buf) s
   = (if samefile fs s d then overwrite (content fs s) off buf else content fs s)"
proof (cases "lstat fs d")
  case None
  then show ?thesis
    by (auto simp: write_at_def samefile_def split: option.splits entry.splits)
next
  case (Some e)
  show ?thesis
  proof (cases e)
    case (Reg j)
    with Some show ?thesis
      by (auto simp: write_at_def samefile_def content_def lookup_def bytes_of_set_bytes
               split: option.splits entry.splits)
  qed (use Some in \<open>auto simp: write_at_def samefile_def split: option.splits entry.splits\<close>)
qed

lemma take_drop_length_take: "take k d @ drop (length (take k d)) d = d"
  by (cases "k \<le> length d") (simp_all add: min_def)

lemma rewrite_chunk:
  "take off c @ take k (drop off c) @ drop (off + length (take k (drop off c))) c = c"
proof -
  have "drop (off + length (take k (drop off c))) c
        = drop (length (take k (drop off c))) (drop off c)"
    by (simp only: drop_drop add.commute)
  then have "take k (drop off c) @ drop (off + length (take k (drop off c))) c = drop off c"
    by (simp only: take_drop_length_take)
  then show ?thesis
    by (simp only: append_take_drop_id)
qed

lemma overwrite_same: "off \<le> length c \<Longrightarrow> overwrite c off (take k (drop off c)) = c"
  using rewrite_chunk[of off c k] by (simp add: overwrite_def)

lemma read_at_nonempty: "read_at fs p off k \<noteq> [] \<Longrightarrow> off < length (content fs p)"
  by (auto simp: read_at_def)

definition chunk_size :: nat where
  "chunk_size = 1024 * 1024"

function copy_chunks ::
  "filesystem \<Rightarrow> path \<Rightarrow> path \<Rightarrow> pane \<Rightarrow> nat \<Rightarrow> nat \<Rightarrow> nat \<Rightarrow> nat \<Rightarrow> filesystem \<times> pane" where
  "copy_chunks fs src_path dst_path pn file_index total_files total_size copied =
     (let buf = read_at fs src_path copied chunk_size
      in if buf = [] then (fs, pn)
         else let fs' = write_at fs dst_path copied buf;
                  copied' = copied + length buf;
                  pn' = (if total_size > 0
                         then set_progress pn ((of_nat file_index - 1)
                                               + (of_nat copied' / of_nat total_size))
                                           (of_nat total_files)
                         else set_progress pn (of_nat file_index - 1 / 2) (of_nat total_files))
              in copy_chunks fs' src_path dst_path pn' file_index total_files total_size copied')"
  by pat_completeness auto


termination
proof (relation "measure (\<lambda>(fs, s, d, pn, i, n, sz, copied). length (content fs s) - copied)")
  show "wf (measure (\<lambda>(fs, s, d, pn, i, n, sz, copied). length (content fs s) - copied))"
    by simp
next
  fix fs :: filesystem and src_path dst_path :: path and pn :: pane
    and file_index total_files total_size copied :: nat
    and buf :: string and fs' :: filesystem and copied' :: nat and pn' :: pane
  assume buf: "buf = read_at fs src_path copied chunk_size" and ne: "buf \<noteq> []"
    and fs': "fs' = write_at fs dst_path copied buf" and c': "copied' = copied + length buf"
  have lt: "copied < length (content fs src_path)"
    using buf ne read_at_nonempty by blast
  then have "overwrite (content fs src_path) copied buf = content fs src_path"
    unfolding buf read_at_def by (intro overwrite_same) simp
  then have "content fs' src_path = content fs src_path"
    unfolding fs' by (simp add: content_write_at)
  moreover have "copied < copied'" using ne c' by (cases buf) simp_all
  ultimately show
    "((fs', src_path, dst_path, pn', file_index, total_files, total_size, copied'),
      (fs, src_path, dst_path, pn, file_index, total_files, total_size, copied))
     \<in> measure (\<lambda>(fs, s, d, pn, i, n, sz, copied). length (content fs s) - copied)"
    using lt by simp
qed

declare copy_chunks.simps [simp del]

text \<open>
  \<^verbatim>\<open>shutil.copystat\<close> copies times and mode bits only, and the code swallows its
  exceptions: on the store it changes nothing.
\<close>

definition copystat :: "filesystem \<Rightarrow> path \<Rightarrow> path \<Rightarrow> filesystem" where
  "copystat fs src_path dst_path = fs"

definition copy_with_progress ::
  "filesystem \<Rightarrow> path \<Rightarrow> path \<Rightarrow> pane \<Rightarrow> nat \<Rightarrow> nat \<Rightarrow> (filesystem \<times> pane) outcome" where
  "copy_with_progress fs src_path dst_path pn file_index total_files =
     (let total_size = (case getsize fs src_path of Inr sz \<Rightarrow> sz | Inl e \<Rightarrow> 0)
      in case open_rb fs src_path of
           Inl e \<Rightarrow> Raised e (fs, pn)
         | Inr u \<Rightarrow>
             (case open_wb fs dst_path of
                Inl e \<Rightarrow> Raised e (fs, pn)
              | Inr fs1 \<Rightarrow>
                  (case copy_chunks fs1 src_path dst_path pn file_index total_files total_size 0 of
                     (fs2, pn2) \<Rightarrow>
                       Returned (copystat fs2 src_path dst_path,
                                 set_progress pn2 (of_nat file_index) (of_nat total_files)))))"

section \<open>Transfer Orchestrator\<close>

text \<open>
  The state the two transfer functions work on: the store, the pane whose selection is
  transferred, the other pane, and the message boxes shown so far. \<open>journal\<close> is a
  history variable, not program state: one verdict for each iteration of the transfer loop
  that ran, \<open>Transferred\<close> when its body ended without an exception and without an error
  dialog, \<open>Failed\<close> with the exception otherwise.
\<close>

datatype verdict = Transferred path | Failed path oserror

record world =
  disk :: filesystem
  src_pane :: pane
  dst_pane :: pane
  dialogs :: "dialog list"
  journal :: "verdict list"

text \<open>
  The body of the loop of \<^verbatim>\<open>_copy_files\<close>, for the plan entry \<open>p\<close> with index \<open>i\<close> of \<open>n\<close>:
  \<^verbatim>\<open>
  rel_path = ...
  target = dst.directory / rel_path
  target.parent.mkdir(parents=True, exist_ok=True)
  self._copy_with_progress(p, target, dst, i, len(all_files))
  \<close>
\<close>

definition copy_body :: "path list \<Rightarrow> path \<Rightarrow> nat \<Rightarrow> nat \<Rightarrow> path \<Rightarrow> world \<Rightarrow> world outcome" where
  "copy_body files dst_dir n i p w =
     (case rel_path (disk w) files p of
        Inl e \<Rightarrow> Raised e w
      | Inr rel \<Rightarrow>
          (let target = dst_dir @ rel
           in case mkdir (disk w) (parent target) of
                Raised e fs1 \<Rightarrow> Raised e (w\<lparr>disk := fs1\<rparr>)
              | Returned fs1 \<Rightarrow>
                  (case copy_with_progress fs1 p target (dst_pane w) i n of
                     Raised e (fs2, pn) \<Rightarrow> Raised e (w\<lparr>disk := fs2, dst_pane := pn\<rparr>)
                   | Returned (fs2, pn) \<Rightarrow> Returned (w\<lparr>disk := fs2, dst_pane := pn\<rparr>))))"

text \<open>
  The body of the loop of \<^verbatim>\<open>_move_files\<close>: the same, then
  \<^verbatim>\<open>
  try: p.unlink()
  except Exception as e: messagebox.showerror("Move", f"Could not remove {p.name}: {e}")
  \<close>
\<close>

definition move_body :: "path list \<Rightarrow> path \<Rightarrow> nat \<Rightarrow> nat \<Rightarrow> path \<Rightarrow> world \<Rightarrow> world outcome" where
  "move_body files dst_dir n i p w =
     (case copy_body files dst_dir n i p w of
        Raised e w1 \<Rightarrow> Raised e w1
      | Returned w1 \<Rightarrow>
          (case unlink (disk w1) p of
             Inr fs' \<Rightarrow> Returned (w1\<lparr>disk := fs'\<rparr>)
           | Inl e \<Rightarrow>
               Returned (w1\<lparr>dialogs := dialogs w1
                              @ [ShowError ''Move'' (''Could not remove '' @ name_of p) e]\<rparr>)))"

text \<open>
  \<^verbatim>\<open>for i, p in enumerate(all_files, start=1)\<close>: an exception leaves the loop and the
  function. The journal entry of an iteration is written when it ends.
\<close>

definition note_verdict :: "path \<Rightarrow> world \<Rightarrow> world outcome \<Rightarrow> world outcome" where
  "note_verdict p w r =
     (case r of
        Raised e w' \<Rightarrow> Raised e (w'\<lparr>journal := journal w' @ [Failed p e]\<rparr>)
      | Returned w' \<Rightarrow>
          Returned (w'\<lparr>journal := journal w' @
             [case drop (length (dialogs w)) (dialogs w') of
                ShowError title text e # ds \<Rightarrow> Failed p e
              | _ \<Rightarrow> Transferred p]\<rparr>))"

fun transfer_loop ::
  "(nat \<Rightarrow> path \<Rightarrow> world \<Rightarrow> world outcome) \<Rightarrow> nat \<Rightarrow> path list \<Rightarrow> world \<Rightarrow> world outcome" where
  "transfer_loop body i [] w = Returned w"
| "transfer_loop body i (p # ps) w =
     (case note_verdict p w (body i p w) of
        Raised e w' \<Rightarrow> Raised e w'
      | Returned w' \<Rightarrow> transfer_loop body (Suc i) ps w')"

text \<open>
  \<^verbatim>\<open>
  def _copy_files(self, src, dst):
      files = src.get_selected_paths()
      if not files or not dst.directory:
          messagebox.showinfo("Copy", "Select items and set a destination directory in the other pane.")
          return
      all_files = self._collect_all_files(files)
      dst._set_progress(0, len(all_files))
      for i, p in enumerate(all_files, start=1): ...
      dst._reset_progress()
      dst.list_contents()
      dst.flash_success()
  \<close>
\<close>

definition reject :: "string \<Rightarrow> world \<Rightarrow> world" where
  "reject title w =
     w\<lparr>dialogs := dialogs w
          @ [ShowInfo title ''Select items and set a destination directory in the other pane.'']\<rparr>"

definition begin_transfer :: "path list \<Rightarrow> world \<Rightarrow> world" where
  "begin_transfer all_files w =
     w\<lparr>dst_pane := set_progress (dst_pane w) 0 (of_nat (length all_files))\<rparr>"

definition reset_dst :: "world \<Rightarrow> world" where
  "reset_dst w = w\<lparr>dst_pane := reset_progress (dst_pane w)\<rparr>"

definition refresh_dst :: "world \<Rightarrow> world" where
  "refresh_dst w =
     (case list_contents (disk w) (dst_pane w) (dialogs w) of
        (pn, dl) \<Rightarrow> w\<lparr>dst_pane := pn, dialogs := dl\<rparr>)"

definition refresh_src :: "world \<Rightarrow> world" where
  "refresh_src w =
     (case list_contents (disk w) (src_pane w) (dialogs w) of
        (pn, dl) \<Rightarrow> w\<lparr>src_pane := pn, dialogs := dl\<rparr>)"

definition flash_dst :: "world \<Rightarrow> world" where
  "flash_dst w = w\<lparr>dst_pane := flash_success (dst_pane w)\<rparr>"

definition copy_files :: "world \<Rightarrow> world outcome" where
  "copy_files w =
     (let files = get_selected_paths (disk w) (src_pane w)
      in case directory (dst_pane w) of
           None \<Rightarrow> Returned (reject ''Copy'' w)
         | Some dst_dir \<Rightarrow>
             if files = [] then Returned (reject ''Copy'' w)
             else
               (let all_files = collect_all_files (disk w) files
                in case transfer_loop (copy_body files dst_dir (length all_files)) 1 all_files
                          (begin_transfer all_files w) of
                     Raised e w' \<Rightarrow> Raised e w'
                   | Returned w' \<Rightarrow> Returned (flash_dst (refresh_dst (reset_dst w')))))"

text \<open>
  \<^verbatim>\<open>_move_files\<close> differs in the loop body, and refreshes the listing of both panes:
  \<^verbatim>\<open>
      dst._reset_progress()
      src.list_contents()
      dst.list_contents()
      dst.flash_success()
  \<close>
\<close>

definition move_files :: "world \<Rightarrow> world outcome" where
  "move_files w =
     (let files = get_selected_paths (disk w) (src_pane w)
      in case directory (dst_pane w) of
           None \<Rightarrow> Returned (reject ''Move'' w)
         | Some dst_dir \<Rightarrow>
             if files = [] then Returned (reject ''Move'' w)
             else
               (let all_files = collect_all_files (disk w) files
                in case transfer_loop (move_body files dst_dir (length all_files)) 1 all_files
                          (begin_transfer all_files w) of
                     Raised e w' \<Rightarrow> Raised e w'
                   | Returned w' \<Rightarrow>
                       Returned (flash_dst (refresh_dst (refresh_src (reset_dst w'))))))"

section \<open>Notions used in the statements\<close>

text \<open>The pair \<open>{current, total}\<close> that a pane's progress bar holds.\<close>

definition progress_pair :: "pane \<Rightarrow> rat \<times> rat" where
  "progress_pair pn = (progress_value pn, progress_maximum pn)"

text \<open>A progress update is a call of \<^verbatim>\<open>_set_progress\<close> or of \<^verbatim>\<open>_reset_progress\<close>.\<close>

datatype progress_update = SetProgress rat rat | ResetProgress

fun apply_update :: "pane \<Rightarrow> progress_update \<Rightarrow> pane" where
  "apply_update pn (SetProgress v m) = set_progress pn v m"
| "apply_update pn ResetProgress = reset_progress pn"

definition apply_updates :: "pane \<Rightarrow> progress_update list \<Rightarrow> pane" where
  "apply_updates pn us = foldl apply_update pn us"

text \<open>
  The two actions, \<^verbatim>\<open>copy_between\<close> and \<^verbatim>\<open>move_between\<close>, which call \<^verbatim>\<open>_copy_files\<close> and
  \<^verbatim>\<open>_move_files\<close> on the acting pane and the opposite one.
\<close>

datatype mode = Copy | Move

fun run_transfer :: "mode \<Rightarrow> world \<Rightarrow> world outcome" where
  "run_transfer Copy w = copy_files w"
| "run_transfer Move w = move_files w"

fun body_of ::
  "mode \<Rightarrow> path list \<Rightarrow> path \<Rightarrow> nat \<Rightarrow> nat \<Rightarrow> path \<Rightarrow> world \<Rightarrow> world outcome" where
  "body_of Copy = copy_body"
| "body_of Move = move_body"

fun title_of :: "mode \<Rightarrow> string" where
  "title_of Copy = ''Copy''"
| "title_of Move = ''Move''"

text \<open>
  A pane as \<^verbatim>\<open>Pane.__init__\<close> leaves it, and a small store for the examples: \<^verbatim>\<open>/a\<close> with the
  files \<^verbatim>\<open>x\<close>, \<^verbatim>\<open>y\<close> and the empty \<^verbatim>\<open>e\<close>; \<^verbatim>\<open>/b\<close> with the directory \<^verbatim>\<open>x\<close> and the file \<^verbatim>\<open>y\<close>;
  \<^verbatim>\<open>/c\<close> with the read-only file \<^verbatim>\<open>r\<close>, a second name \<^verbatim>\<open>h\<close> of the file \<^verbatim>\<open>/a/y\<close>, a socket
  \<^verbatim>\<open>s\<close>, a broken link \<^verbatim>\<open>l\<close>, the unreadable directory \<^verbatim>\<open>u\<close>, which holds the file \<^verbatim>\<open>f\<close>, and
  a link \<^verbatim>\<open>k\<close> to a directory, through which the file \<^verbatim>\<open>g\<close> is seen.
\<close>

definition new_pane :: pane where
  "new_pane = \<lparr>directory = None, selected_rows = [], listbox_rows = [], current_items = [],
               progress_value = 0, progress_maximum = 100, progress_calls = [],
               done_shown = False\<rparr>"

definition example_disk :: filesystem where
  "example_disk =
     \<lparr>entries = [([''a''], Folder), ([''a'', ''x''], Reg 1), ([''a'', ''y''], Reg 2),
                 ([''a'', ''e''], Reg 3), ([''b''], Folder), ([''b'', ''x''], Folder),
                 ([''b'', ''y''], Reg 4),
                 ([''c''], Folder), ([''c'', ''r''], Reg 5), ([''c'', ''h''], Reg 2),
                 ([''c'', ''s''], Socket), ([''c'', ''l''], Dangling),
                 ([''c'', ''u''], Folder), ([''c'', ''u'', ''f''], Reg 6),
                 ([''c'', ''k''], DirLink), ([''c'', ''k'', ''g''], Reg 1)],
      inodes = [(1, \<lparr>bytes = ''hi'', writable = True\<rparr>), (2, \<lparr>bytes = ''yo'', writable = True\<rparr>),
                (3, \<lparr>bytes = [], writable = True\<rparr>), (4, \<lparr>bytes = ''old'', writable = True\<rparr>),
                (5, \<lparr>bytes = ''ro'', writable = False\<rparr>), (6, \<lparr>bytes = ''in'', writable = True\<rparr>)],
      locked = [],
      unreadable = [[''c'', ''u'']]\<rparr>"

definition example_world :: "string list \<Rightarrow> path option \<Rightarrow> world" where
  "example_world rows dst_dir =
     \<lparr>disk = example_disk,
      src_pane = new_pane\<lparr>directory := Some [''a''], selected_rows := rows\<rparr>,
      dst_pane = new_pane\<lparr>directory := dst_dir\<rparr>,
      dialogs = [], journal = []\<rparr>"

text \<open>What both transfer functions do after the loop has returned.\<close>

fun finish :: "mode \<Rightarrow> world \<Rightarrow> world" where
  "finish Copy w = flash_dst (refresh_dst (reset_dst w))"
| "finish Move w = flash_dst (refresh_dst (refresh_src (reset_dst w)))"

text \<open>
  A path \<open>q\<close> is listed under \<open>d\<close> when \<open>d\<close> is a proper ancestor of \<open>q\<close>, every path from
  \<open>d\<close> down to the parent of \<open>q\<close> is a directory that can be scanned, and none of them,
  \<open>d\<close> apart, is a symbolic link.
\<close>

definition listed_under :: "filesystem \<Rightarrow> path \<Rightarrow> path \<Rightarrow> bool" where
  "listed_under fs d q =
     (length d < length q \<and> take (length d) q = d
      \<and> (\<forall>k \<in> {length d ..< length q}.
            is_dir fs (take k q) \<and> take k q \<notin> set (unreadable fs))
      \<and> (\<forall>k \<in> {Suc (length d) ..< length q}. lstat fs (take k q) \<noteq> Some DirLink))"


subsection \<open>Evaluating the copy loop on short files\<close>

text \<open>
  A file of at most 64 bytes is read in one chunk; the code equations below say so, which
  lets the examples be evaluated without counting up to the chunk size.
\<close>

definition read_chunk :: "filesystem \<Rightarrow> path \<Rightarrow> nat \<Rightarrow> string" where
  "read_chunk fs p off = read_at fs p off chunk_size"

lemma read_chunk_code [code]:
  "read_chunk fs p off =
     (let rest = drop off (content fs p)
      in if length rest \<le> 64 then rest else take chunk_size rest)"
  by (simp add: read_chunk_def read_at_def Let_def chunk_size_def)

lemma copy_chunks_code [code]:
  "copy_chunks fs src_path dst_path pn file_index total_files total_size copied =
     (let buf = read_chunk fs src_path copied
      in if buf = [] then (fs, pn)
         else let fs' = write_at fs dst_path copied buf;
                  copied' = copied + length buf;
                  pn' = (if total_size > 0
                         then set_progress pn ((of_nat file_index - 1)
                                               + (of_nat copied' / of_nat total_size))
                                           (of_nat total_files)
                         else set_progress pn (of_nat file_index - 1 / 2) (of_nat total_files))
              in copy_chunks fs' src_path dst_path pn' file_index total_files total_size copied')"
  unfolding read_chunk_def by (rule copy_chunks.simps)

section \<open>Pane progress\<close>

lemma progress_value_set_progress [simp]:
  "progress_value (set_progress pn v m) = max 0 (min v (max 1 m))"
  by (simp add: set_progress_def Let_def)

lemma progress_maximum_set_progress [simp]:
  "progress_maximum (set_progress pn v m) = max 1 m"
  by (simp add: set_progress_def Let_def)

lemma progress_calls_set_progress [simp]:
  "progress_calls (set_progress pn v m) = progress_calls pn @ [(v, m)]"
  by (simp add: set_progress_def Let_def)

lemma directory_set_progress [simp]: "directory (set_progress pn v m) = directory pn"
  by (simp add: set_progress_def Let_def)

text \<open>
  C9. Whatever sequence of progress updates a pane receives, after each update the stored
  current value is at most the stored total: the sequence \<open>us @ [u]\<close> is any non-empty
  sequence, seen just after its last update \<open>u\<close>.
\<close>

theorem progress_current_le_total:
  "progress_value (apply_updates pn (us @ [u])) \<le> progress_maximum (apply_updates pn (us @ [u]))"
  by (cases u) (simp_all add: apply_updates_def reset_progress_def)

section \<open>Properties of the Chunked Copier\<close>


lemma le_foldr_max: "(x::nat) \<in> set xs \<Longrightarrow> x \<le> foldr max xs 0"
  by (induction xs) auto


lemma inode_lt_fresh: "map_of (inodes fs) i = Some nd \<Longrightarrow> i < fresh_inode fs"
proof -
  assume "map_of (inodes fs) i = Some nd"
  then have "i \<in> set (map fst (inodes fs) @ reg_numbers (entries fs))"
    by (auto dest: map_of_SomeD intro: rev_image_eqI)
  from le_foldr_max[OF this] show ?thesis by (simp add: fresh_inode_def)
qed

lemma lookup_put_entry_other: "q \<noteq> p \<Longrightarrow> lookup (put_entry fs p e) q = lookup fs q"
  by (cases "q = []")
     (simp_all add: lookup_def lstat_put_entry bytes_of_put_entry split: option.splits entry.splits)

lemma lstat_create_file:
  "lstat (create_file fs p) q
   = (if q = [] then Some Folder else if q = p then Some (Reg (fresh_inode fs)) else lstat fs q)"
  by (simp add: create_file_def lstat_put_entry)



lemma locked_create_file [simp]: "locked (create_file fs p) = locked fs"
  by (simp add: create_file_def put_entry_def)

lemma unreadable_create_file [simp]: "unreadable (create_file fs p) = unreadable fs"
  by (simp add: create_file_def put_entry_def)

text \<open>What a successful \<^verbatim>\<open>open(d, "wb")\<close> leaves.\<close>

lemma open_wb_cases:
  assumes "open_wb fs d = Inr fs1"
  shows "(\<exists>j. lstat fs d = Some (Reg j) \<and> is_writable fs j \<and> fs1 = set_bytes fs j [])
         \<or> (lstat fs d = None \<and> fs1 = create_file fs d)"
  using assms
  by (auto simp: open_wb_def split: option.splits entry.splits if_splits)




lemma entries_set_bytes [simp]: "entries (set_bytes fs i c) = entries fs"
  by (simp add: set_bytes_def)









section \<open>Properties of the Dual-Pane Coordinator\<close>

lemma get_selected_paths_no_rows: "selected_rows pn = [] \<Longrightarrow> get_selected_paths fs pn = []"
  by (simp add: get_selected_paths_def split: option.splits)

text \<open>
  C6. A Copy or Move action whose acting pane has an empty selection, or whose sibling pane
  has no directory, is rejected: the call returns at once, the only effect is the one
  information dialog that tells the operator what is missing, and the store, both panes
  and the journal of processed entries are unchanged.
\<close>

theorem rejected_without_work:
  assumes "selected_rows (src_pane w) = [] \<or> directory (dst_pane w) = None"
  shows "run_transfer m w = Returned (reject (title_of m) w)
         \<and> disk (reject (title_of m) w) = disk w
         \<and> src_pane (reject (title_of m) w) = src_pane w
         \<and> dst_pane (reject (title_of m) w) = dst_pane w
         \<and> journal (reject (title_of m) w) = journal w
         \<and> dialogs (reject (title_of m) w) = dialogs w
              @ [ShowInfo (title_of m)
                   ''Select items and set a destination directory in the other pane.'']"
  using assms
  by (cases m)
     (auto simp: copy_files_def move_files_def reject_def Let_def get_selected_paths_no_rows
           split: option.splits)

theorem rejected_without_work_witness:
  "(selected_rows (src_pane (example_world [] (Some [''b'']))) = []
      \<or> directory (dst_pane (example_world [] (Some [''b'']))) = None)
   \<and> run_transfer Copy (example_world [] (Some [''b'']))
       = Returned (reject (title_of Copy) (example_world [] (Some [''b''])))"
proof -
  have h: "selected_rows (src_pane (example_world [] (Some [''b'']))) = []
      \<or> directory (dst_pane (example_world [] (Some [''b'']))) = None"
    by (simp add: example_world_def)
  from rejected_without_work[OF h, of Copy] h show ?thesis by blast
qed

section \<open>Properties of the Transfer Orchestrator\<close>

lemma run_transfer_stages:
  assumes "directory (dst_pane w) = Some d"
    and "get_selected_paths (disk w) (src_pane w) = files" and "files \<noteq> []"
    and "collect_all_files (disk w) files = plan"
  shows "run_transfer m w =
           (case transfer_loop (body_of m files d (length plan)) 1 plan (begin_transfer plan w) of
              Raised e w' \<Rightarrow> Raised e w'
            | Returned w' \<Rightarrow> Returned (finish m w'))"
  using assms by (cases m) (simp_all add: copy_files_def move_files_def Let_def split: outcome.splits)

lemma progress_reset_progress [simp]:
  "progress_value (reset_progress pn) = 0"
  "progress_maximum (reset_progress pn) = max 1 (progress_maximum pn)"
  by (simp_all add: reset_progress_def)

lemma progress_update_list:
  "progress_value (update_list_with_progress pn items) = 0"
  "1 \<le> progress_maximum (update_list_with_progress pn items)"
  by (simp_all add: update_list_with_progress_def Let_def)

lemma progress_list_contents:
  assumes "progress_value pn = 0" "1 \<le> progress_maximum pn"
  shows "progress_value (fst (list_contents fs pn dl)) = 0
         \<and> 1 \<le> progress_maximum (fst (list_contents fs pn dl))"
  using assms
  by (auto simp: list_contents_def list_all_def Let_def progress_update_list
           split: option.splits node.splits)

lemma dst_pane_finish:
  "progress_value (dst_pane (finish m w)) = 0 \<and> 1 \<le> progress_maximum (dst_pane (finish m w))"
proof -
  have r: "progress_value (reset_progress (dst_pane w)) = 0"
    "1 \<le> progress_maximum (reset_progress (dst_pane w))" by simp_all
  show ?thesis
  proof (cases m)
    case Copy
    with progress_list_contents[OF r, of "disk w" "dialogs w"] show ?thesis
      by (simp add: flash_dst_def refresh_dst_def reset_dst_def flash_success_def case_prod_beta)
  next
    case Move
    have "dst_pane (refresh_src (reset_dst w)) = reset_progress (dst_pane w)"
      by (simp add: refresh_src_def reset_dst_def case_prod_beta)
    with Move progress_list_contents[OF r, of "disk (refresh_src (reset_dst w))" "dialogs (refresh_src (reset_dst w))"]
    show ?thesis
      by (simp add: flash_dst_def refresh_dst_def flash_success_def case_prod_beta)
  qed
qed

lemma copy_with_progress_maximum:
  "copy_with_progress fs s d pn i n = Returned (fs', pn') \<Longrightarrow> progress_maximum pn' = max 1 (of_nat n)"
  by (auto simp: copy_with_progress_def Let_def split: sum.splits prod.splits)

lemma copy_body_maximum:
  "copy_body files d n i p w = Returned w' \<Longrightarrow> progress_maximum (dst_pane w') = max 1 (of_nat n)"
  by (auto simp: copy_body_def Let_def split: sum.splits outcome.splits prod.splits
           dest: copy_with_progress_maximum)

lemma move_body_maximum:
  "move_body files d n i p w = Returned w' \<Longrightarrow> progress_maximum (dst_pane w') = max 1 (of_nat n)"
  by (auto simp: move_body_def split: sum.splits outcome.splits dest: copy_body_maximum)

lemma body_of_maximum:
  "body_of m files d n i p w = Returned w' \<Longrightarrow> progress_maximum (dst_pane w') = max 1 (of_nat n)"
  by (cases m) (auto dest: copy_body_maximum move_body_maximum)

lemma note_verdict_Returned:
  "note_verdict p w r = Returned w' \<Longrightarrow> \<exists>w1. r = Returned w1 \<and> dst_pane w' = dst_pane w1
      \<and> disk w' = disk w1 \<and> src_pane w' = src_pane w1 \<and> dialogs w' = dialogs w1"
  by (auto simp: note_verdict_def split: outcome.splits)

lemma transfer_loop_maximum:
  assumes "progress_maximum (dst_pane w) = max 1 (of_nat n)"
    and "transfer_loop (body_of m files d n) i ps w = Returned w'"
  shows "progress_maximum (dst_pane w') = max 1 (of_nat n)"
  using assms
proof (induction ps arbitrary: i w)
  case Nil
  then show ?case by simp
next
  case (Cons p ps)
  from Cons.prems(2) obtain w1 where
    n1: "note_verdict p w (body_of m files d n i p w) = Returned w1"
    and l: "transfer_loop (body_of m files d n) (Suc i) ps w1 = Returned w'"
    by (auto split: outcome.splits)
  from note_verdict_Returned[OF n1] obtain w2 where
    "body_of m files d n i p w = Returned w2" "dst_pane w1 = dst_pane w2" by auto
  then have "progress_maximum (dst_pane w1) = max 1 (of_nat n)"
    using body_of_maximum by simp
  from Cons.IH[OF this l] show ?case .
qed

text \<open>
  C8, as amended. A transfer that passes the two guards runs in three stages: the first
  progress call, the loop over the plan, and the steps after the loop. After the first call
  the destination pane's pair is \<open>{0, max 1 n}\<close> for a plan of \<open>n\<close> entries, never \<open>{0, 0}\<close>:
  the stored total is at least 1. When the loop returns, the reset after the last entry
  gives \<open>{0, max 1 n}\<close> again, and when the function returns, after the listing has been
  refreshed, the current value is 0 and the total at least 1. When the loop is left by an
  exception the reset is not reached.
\<close>
theorem progress_reset_around_transfer:
  assumes "directory (dst_pane w) = Some d"
    and "get_selected_paths (disk w) (src_pane w) = files" and "files \<noteq> []"
    and "collect_all_files (disk w) files = plan"
  shows "run_transfer m w =
           (case transfer_loop (body_of m files d (length plan)) 1 plan (begin_transfer plan w) of
              Raised e w' \<Rightarrow> Raised e w'
            | Returned w' \<Rightarrow> Returned (finish m w'))
         \<and> progress_pair (dst_pane (begin_transfer plan w)) = (0, max 1 (of_nat (length plan)))
         \<and> (\<forall>w'. transfer_loop (body_of m files d (length plan)) 1 plan (begin_transfer plan w)
                   = Returned w'
                \<longrightarrow> progress_pair (dst_pane (reset_dst w')) = (0, max 1 (of_nat (length plan)))
                  \<and> progress_value (dst_pane (finish m w')) = 0
                  \<and> 1 \<le> progress_maximum (dst_pane (finish m w')))"
proof -
  have b: "progress_pair (dst_pane (begin_transfer plan w)) = (0, max 1 (of_nat (length plan)))"
    by (simp add: progress_pair_def begin_transfer_def)
  then have bm: "progress_maximum (dst_pane (begin_transfer plan w)) = max 1 (of_nat (length plan))"
    by (simp add: progress_pair_def)
  have "progress_pair (dst_pane (reset_dst w')) = (0, max 1 (of_nat (length plan)))"
    if "transfer_loop (body_of m files d (length plan)) 1 plan (begin_transfer plan w) = Returned w'"
    for w'
    using transfer_loop_maximum[OF bm that] by (simp add: progress_pair_def reset_dst_def)
  with b run_transfer_stages[OF assms] dst_pane_finish show ?thesis by blast
qed

theorem progress_reset_around_transfer_witness:
  "directory (dst_pane (example_world [''y''] (Some [''b'']))) = Some [''b'']
   \<and> get_selected_paths (disk (example_world [''y''] (Some [''b''])))
        (src_pane (example_world [''y''] (Some [''b'']))) = [[''a'', ''y'']]
   \<and> collect_all_files (disk (example_world [''y''] (Some [''b'']))) [[''a'', ''y'']] = [[''a'', ''y'']]
   \<and> progress_pair (dst_pane (begin_transfer [[''a'', ''y'']] (example_world [''y''] (Some [''b'']))))
       = (0, max 1 (of_nat (length [[''a'', ''y'']])))"
proof -
  have h1: "directory (dst_pane (example_world [''y''] (Some [''b'']))) = Some [''b'']"
    by code_simp
  have h2: "get_selected_paths (disk (example_world [''y''] (Some [''b''])))
        (src_pane (example_world [''y''] (Some [''b'']))) = [[''a'', ''y'']]"
    by code_simp
  have h3: "[[''a'', ''y'']] \<noteq> ([] :: path list)" by simp
  have h4: "collect_all_files (disk (example_world [''y''] (Some [''b'']))) [[''a'', ''y'']] = [[''a'', ''y'']]"
    by code_simp
  from progress_reset_around_transfer[OF h1 h2 h3 h4, of Copy] h1 h2 h4 show ?thesis by blast
qed

text \<open>
  The claim as stated fails: copying the one file \<^verbatim>\<open>/a/y\<close> into \<^verbatim>\<open>/b\<close>, the pair is \<open>{0, 1}\<close>
  at the start and \<open>{0, 2}\<close> when the call returns (two rows are listed in \<^verbatim>\<open>/b\<close>).
\<close>

theorem progress_total_never_zero:
  "progress_pair (dst_pane (begin_transfer [[''a'', ''y'']] (example_world [''y''] (Some [''b''])))) = (0, 1)
   \<and> raised (copy_files (example_world [''y''] (Some [''b'']))) = None
   \<and> progress_pair (dst_pane (state_of (copy_files (example_world [''y''] (Some [''b''])))))
       = (0, 2)"
  by code_simp

lemma copy_with_progress_Raised:
  "copy_with_progress fs s d pn i n = Raised e st \<Longrightarrow> st = (fs, pn)"
  by (auto simp: copy_with_progress_def Let_def split: sum.splits prod.splits)

lemma transfer_loop_append:
  "transfer_loop body i (ps @ qs) w =
     (case transfer_loop body i ps w of
        Raised e w' \<Rightarrow> Raised e w'
      | Returned w' \<Rightarrow> transfer_loop body (i + length ps) qs w')"
  by (induction ps arbitrary: i w) (auto split: outcome.splits)

text \<open>
  C1, as amended. There is no failed list and no handler around the copy: when the Chunked
  Copier raises an I/O error on an entry \<open>p\<close> of the plan \<open>ps @ p # qs\<close> (the entries \<open>ps\<close>
  before it having been processed), the exception leaves the transfer function. The state
  is the one the entries \<open>ps\<close> and the directory creation for \<open>p\<close> left; the entries \<open>qs\<close>
  are not attempted, nothing is shown or recorded, and the progress is not reset.
\<close>
theorem copier_failure_leaves_the_batch:
  assumes "directory (dst_pane w) = Some d"
    and "get_selected_paths (disk w) (src_pane w) = files" and "files \<noteq> []"
    and "collect_all_files (disk w) files = ps @ p # qs"
    and "transfer_loop (body_of m files d (length (ps @ p # qs))) 1 ps
           (begin_transfer (ps @ p # qs) w) = Returned w1"
    and "rel_path (disk w1) files p = Inr rel"
    and "mkdir (disk w1) (parent (d @ rel)) = Returned fs1"
    and "copy_with_progress fs1 p (d @ rel) (dst_pane w1) (Suc (length ps)) (length (ps @ p # qs))
           = Raised e st"
  shows "run_transfer m w = Raised e (w1\<lparr>disk := fs1, journal := journal w1 @ [Failed p e]\<rparr>)"
proof -
  let ?n = "length (ps @ p # qs)"
  from copy_with_progress_Raised[OF assms(8)] have st: "st = (fs1, dst_pane w1)" .
  have cb: "copy_body files d ?n (Suc (length ps)) p w1 = Raised e (w1\<lparr>disk := fs1\<rparr>)"
    using assms(6,7,8) st by (simp add: copy_body_def Let_def)
  have "body_of m files d ?n (Suc (length ps)) p w1 = Raised e (w1\<lparr>disk := fs1\<rparr>)"
    using cb by (cases m) (simp_all add: move_body_def)
  then have "transfer_loop (body_of m files d ?n) (Suc (length ps)) (p # qs) w1
             = Raised e (w1\<lparr>disk := fs1, journal := journal w1 @ [Failed p e]\<rparr>)"
    by (simp add: note_verdict_def)
  then have "transfer_loop (body_of m files d ?n) 1 (ps @ p # qs) (begin_transfer (ps @ p # qs) w)
             = Raised e (w1\<lparr>disk := fs1, journal := journal w1 @ [Failed p e]\<rparr>)"
    using assms(5) by (simp add: transfer_loop_append)
  then show ?thesis
    using run_transfer_stages[OF assms(1-4), of m] by simp
qed

theorem copier_failure_leaves_the_batch_witness:
  "directory (dst_pane (example_world [''x'', ''y''] (Some [''b'']))) = Some [''b'']
   \<and> get_selected_paths (disk (example_world [''x'', ''y''] (Some [''b''])))
        (src_pane (example_world [''x'', ''y''] (Some [''b'']))) = [[''a'', ''x''], [''a'', ''y'']]
   \<and> run_transfer Copy (example_world [''x'', ''y''] (Some [''b'']))
      = Raised (IsADirectoryError [''b'', ''x''])
          ((begin_transfer ([] @ [''a'', ''x''] # [[''a'', ''y'']])
              (example_world [''x'', ''y''] (Some [''b''])))
             \<lparr>disk := example_disk,
              journal := journal (begin_transfer ([] @ [''a'', ''x''] # [[''a'', ''y'']])
                                    (example_world [''x'', ''y''] (Some [''b''])))
                         @ [Failed [''a'', ''x''] (IsADirectoryError [''b'', ''x''])]\<rparr>)"
proof -
  let ?w = "example_world [''x'', ''y''] (Some [''b''])"
  let ?files = "[[''a'', ''x''], [''a'', ''y'']]"
  let ?w1 = "begin_transfer ([] @ [''a'', ''x''] # [[''a'', ''y'']]) ?w"
  have h1: "directory (dst_pane ?w) = Some [''b'']" by code_simp
  have h2: "get_selected_paths (disk ?w) (src_pane ?w) = ?files" by code_simp
  have h3: "?files \<noteq> []" by simp
  have h4: "collect_all_files (disk ?w) ?files = [] @ [''a'', ''x''] # [[''a'', ''y'']]"
    by code_simp
  have h5: "transfer_loop (body_of Copy ?files [''b'']
                             (length ([] @ [''a'', ''x''] # [[''a'', ''y'']]))) 1 [] ?w1
            = Returned ?w1"
    by (simp only: transfer_loop.simps)
  have h6: "rel_path (disk ?w1) ?files [''a'', ''x''] = Inr [''x'']" by code_simp
  have h7: "mkdir (disk ?w1) (parent ([''b''] @ [''x''])) = Returned example_disk" by code_simp
  have h8: "copy_with_progress example_disk [''a'', ''x''] ([''b''] @ [''x'']) (dst_pane ?w1)
              (Suc (length ([]::path list))) (length ([] @ [''a'', ''x''] # [[''a'', ''y'']]))
            = Raised (IsADirectoryError [''b'', ''x'']) (example_disk, dst_pane ?w1)"
    by code_simp
  show ?thesis
    by (intro conjI)
       (rule h1, rule h2, rule copier_failure_leaves_the_batch[OF h1 h2 h3 h4 h5 h6 h7 h8])
qed

text \<open>
  The claim as stated fails: copying \<^verbatim>\<open>/a/x\<close> and \<^verbatim>\<open>/a/y\<close> into \<^verbatim>\<open>/b\<close>, where \<^verbatim>\<open>/b/x\<close> is a
  directory, the first copy raises, the call ends with that exception, no dialog is shown,
  and \<^verbatim>\<open>/b/y\<close> still has its old bytes: the second entry was not attempted.
\<close>

theorem copy_failure_stops_the_batch:
  "raised (copy_files (example_world [''x'', ''y''] (Some [''b''])))
     = Some (IsADirectoryError [''b'', ''x''])
   \<and> lookup (disk (state_of (copy_files (example_world [''x'', ''y''] (Some [''b''])))))
        [''b'', ''y''] = Some (File ''old'')
   \<and> dialogs (state_of (copy_files (example_world [''x'', ''y''] (Some [''b''])))) = []"
proof -
  have a: "raised (copy_files (example_world [''x'', ''y''] (Some [''b''])))
     = Some (IsADirectoryError [''b'', ''x''])" by code_simp
  have b: "lookup (disk (state_of (copy_files (example_world [''x'', ''y''] (Some [''b''])))))
        [''b'', ''y''] = Some (File ''old'')" by code_simp
  have c: "dialogs (state_of (copy_files (example_world [''x'', ''y''] (Some [''b''])))) = []"
    by code_simp
  show ?thesis by (intro conjI) (rule a, rule b, rule c)
qed

subsection \<open>Moving one entry\<close>

text \<open>
  C2. The code at a failing input: both panes show \<^verbatim>\<open>/a\<close> and the file \<^verbatim>\<open>/a/y\<close> is moved.
  The destination path is the source path; the copy empties the file, the deletion removes
  it, no exception is raised and no dialog is shown, and afterwards the path does not exist,
  although the claim says the destination exists with the source's bytes.
\<close>

theorem move_within_one_directory_loses_the_file:
  "lookup (disk (example_world [''y''] (Some [''a'']))) [''a'', ''y''] = Some (File ''yo'')
   \<and> raised (move_files (example_world [''y''] (Some [''a'']))) = None
   \<and> dialogs (state_of (move_files (example_world [''y''] (Some [''a''])))) = []
   \<and> journal (state_of (move_files (example_world [''y''] (Some [''a'']))))
       = [Transferred [''a'', ''y'']]
   \<and> lookup (disk (state_of (move_files (example_world [''y''] (Some [''a''])))))
        [''a'', ''y''] = None"
proof -
  have a: "lookup (disk (example_world [''y''] (Some [''a'']))) [''a'', ''y''] = Some (File ''yo'')"
    by code_simp
  have b: "raised (move_files (example_world [''y''] (Some [''a'']))) = None" by code_simp
  have c: "dialogs (state_of (move_files (example_world [''y''] (Some [''a''])))) = []"
    by code_simp
  have d: "journal (state_of (move_files (example_world [''y''] (Some [''a'']))))
       = [Transferred [''a'', ''y'']]" by code_simp
  have e: "lookup (disk (state_of (move_files (example_world [''y''] (Some [''a''])))))
        [''a'', ''y''] = None" by code_simp
  show ?thesis by (intro conjI) (rule a, rule b, rule c, rule d, rule e)
qed

section \<open>Properties of the Path Enumerator\<close>

lemma is_dir_lstat: "is_dir fs r \<longleftrightarrow> lstat fs r = Some Folder \<or> lstat fs r = Some DirLink"
  by (auto simp: is_dir_def lookup_def split: option.splits entry.splits)

lemma is_file_lstat: "is_file fs q \<longleftrightarrow> (\<exists>i. lstat fs q = Some (Reg i))"
  by (auto simp: is_file_def lookup_def split: option.splits entry.splits)

lemma set_scandir: "set (scandir fs d) = {n. d @ [n] \<in> fst ` set (entries fs)}"
proof -
  have "\<And>p. p \<noteq> [] \<and> butlast p = d \<longleftrightarrow> p = d @ [last p]"
    by (metis append_butlast_last_id butlast_snoc snoc_eq_iff_butlast)
  then have "set (scandir fs d) = last ` {p \<in> fst ` set (entries fs). p = d @ [last p]}"
    by (simp add: scandir_def)
  also have "\<dots> = {n. d @ [n] \<in> fst ` set (entries fs)}"
    by (force simp: image_iff)
  finally show ?thesis .
qed

lemma in_scandir_iff: "n \<in> set (scandir fs d) \<longleftrightarrow> lstat fs (d @ [n]) \<noteq> None"
  by (simp add: set_scandir lstat_def map_of_eq_None_iff)

lemma dir_in_scandir: "is_dir fs (d @ [n]) \<Longrightarrow> n \<in> set (scandir fs d)"
  by (auto simp: in_scandir_iff is_dir_lstat)

lemma concat_concat_map: "concat (concat (map f xs)) = concat (map (\<lambda>x. concat (f x)) xs)"
  by (induction xs) simp_all

lemma walk_files_unfold:
  "walk_files fs d =
     (if \<not> is_dir fs d \<or> d \<in> set (unreadable fs) then []
      else map (\<lambda>n. d @ [n]) [n \<leftarrow> scandir fs d. \<not> is_dir fs (d @ [n])]
           @ concat (map (\<lambda>n. walk_files fs (d @ [n]))
                         [n \<leftarrow> scandir fs d. is_dir fs (d @ [n]) \<and> lstat fs (d @ [n]) \<noteq> Some DirLink]))"
  unfolding walk_files_def
  by (subst os_walk.simps) (simp add: Let_def map_concat comp_def concat_concat_map)

lemma listed_under_top: "listed_under fs d q \<Longrightarrow> is_dir fs d \<and> d \<notin> set (unreadable fs)"
  unfolding listed_under_def by (metis atLeastLessThan_iff order_refl)

lemma listed_under_child:
  "listed_under fs d (d @ [n]) \<longleftrightarrow> is_dir fs d \<and> d \<notin> set (unreadable fs)"
  by (auto simp: listed_under_def)

lemma listed_under_step:
  "listed_under fs d q \<longleftrightarrow>
     is_dir fs d \<and> d \<notin> set (unreadable fs)
     \<and> (\<exists>n. q = d @ [n] \<or> (lstat fs (d @ [n]) \<noteq> Some DirLink \<and> listed_under fs (d @ [n]) q))"
proof
  assume r: "listed_under fs d q"
  then have l: "length d < length q" and t: "take (length d) q = d"
    and a: "\<forall>k \<in> {length d ..< length q}. is_dir fs (take k q) \<and> take k q \<notin> set (unreadable fs)"
    and b: "\<forall>k \<in> {Suc (length d) ..< length q}. lstat fs (take k q) \<noteq> Some DirLink"
    by (auto simp: listed_under_def)
  let ?n = "q ! length d"
  have t1: "take (Suc (length d)) q = d @ [?n]"
    using l t by (simp add: take_Suc_conv_app_nth)
  show "is_dir fs d \<and> d \<notin> set (unreadable fs)
        \<and> (\<exists>n. q = d @ [n] \<or> (lstat fs (d @ [n]) \<noteq> Some DirLink \<and> listed_under fs (d @ [n]) q))"
  proof (cases "length q = Suc (length d)")
    case True
    then have "q = d @ [?n]" using t1 by simp
    with listed_under_top[OF r] show ?thesis by blast
  next
    case False
    with l have l2: "Suc (length d) < length q" by simp
    then have "listed_under fs (d @ [?n]) q"
      using t1 a b by (auto simp: listed_under_def)
    moreover have "lstat fs (d @ [?n]) \<noteq> Some DirLink"
    proof -
      from l2 have "Suc (length d) \<in> {Suc (length d) ..< length q}" by simp
      with b have "lstat fs (take (Suc (length d)) q) \<noteq> Some DirLink" by blast
      then show ?thesis unfolding t1 .
    qed
    ultimately show ?thesis using listed_under_top[OF r] by blast
  qed
next
  assume "is_dir fs d \<and> d \<notin> set (unreadable fs)
          \<and> (\<exists>n. q = d @ [n] \<or> (lstat fs (d @ [n]) \<noteq> Some DirLink \<and> listed_under fs (d @ [n]) q))"
  then obtain n where d: "is_dir fs d" and u: "d \<notin> set (unreadable fs)"
    and c: "q = d @ [n] \<or> (lstat fs (d @ [n]) \<noteq> Some DirLink \<and> listed_under fs (d @ [n]) q)"
    by blast
  from c show "listed_under fs d q"
  proof
    assume "q = d @ [n]"
    with d u show ?thesis by (simp add: listed_under_child)
  next
    assume rr: "lstat fs (d @ [n]) \<noteq> Some DirLink \<and> listed_under fs (d @ [n]) q"
    then have nl: "lstat fs (d @ [n]) \<noteq> Some DirLink" and r: "listed_under fs (d @ [n]) q"
      by blast+
    from r have l: "Suc (length d) < length q" and t: "take (Suc (length d)) q = d @ [n]"
      and a: "\<forall>k \<in> {Suc (length d) ..< length q}.
                 is_dir fs (take k q) \<and> take k q \<notin> set (unreadable fs)"
      and b: "\<forall>k \<in> {Suc (Suc (length d)) ..< length q}. lstat fs (take k q) \<noteq> Some DirLink"
      by (auto simp: listed_under_def)
    have t0: "take (length d) q = d"
    proof -
      have "take (length d) (take (Suc (length d)) q) = take (length d) (d @ [n])"
        by (simp only: t)
      then show ?thesis by (simp add: min_def)
    qed
    have A: "is_dir fs (take k q) \<and> take k q \<notin> set (unreadable fs)"
      if "k \<in> {length d ..< length q}" for k
    proof (cases "k = length d")
      case True
      with t0 d u show ?thesis by simp
    next
      case False
      with that have "k \<in> {Suc (length d) ..< length q}" by auto
      with a show ?thesis by blast
    qed
    have B: "lstat fs (take k q) \<noteq> Some DirLink"
      if "k \<in> {Suc (length d) ..< length q}" for k
    proof (cases "k = Suc (length d)")
      case True
      with t nl show ?thesis by simp
    next
      case False
      with that have "k \<in> {Suc (Suc (length d)) ..< length q}" by auto
      with b show ?thesis by blast
    qed
    from A B l t0 show ?thesis by (auto simp: listed_under_def)
  qed
qed

text \<open>
  What a walk yields: every entry that is not a directory, whatever it is, below the
  starting directory, as far as the directories on the way can be scanned.
\<close>

lemma set_walk_files:
  "set (walk_files fs d) = {q. lstat fs q \<noteq> None \<and> \<not> is_dir fs q \<and> listed_under fs d q}"
proof (induction fs d rule: os_walk.induct)
  case (1 fs d)
  show ?case
  proof (cases "is_dir fs d \<and> d \<notin> set (unreadable fs)")
    case False
    then have "walk_files fs d = []" by (subst walk_files_unfold) auto
    moreover have "\<And>q. \<not> listed_under fs d q"
      using False listed_under_top by blast
    ultimately show ?thesis by simp
  next
    case True
    have IH: "set (walk_files fs (d @ [n]))
              = {q. lstat fs q \<noteq> None \<and> \<not> is_dir fs q \<and> listed_under fs (d @ [n]) q}"
      if "is_dir fs (d @ [n])" "lstat fs (d @ [n]) \<noteq> Some DirLink" for n
      using "1.IH"[OF _ refl refl refl, of n] True that dir_in_scandir[OF that(1)] by simp
    have A: "set (map (\<lambda>n. d @ [n]) [n \<leftarrow> scandir fs d. \<not> is_dir fs (d @ [n])])
             = {q. lstat fs q \<noteq> None \<and> \<not> is_dir fs q \<and> (\<exists>n. q = d @ [n])}"
      using in_scandir_iff[of _ fs d] by auto
    have B: "set (concat (map (\<lambda>n. walk_files fs (d @ [n]))
                   [n \<leftarrow> scandir fs d. is_dir fs (d @ [n]) \<and> lstat fs (d @ [n]) \<noteq> Some DirLink]))
             = {q. lstat fs q \<noteq> None \<and> \<not> is_dir fs q
                   \<and> (\<exists>n. lstat fs (d @ [n]) \<noteq> Some DirLink \<and> listed_under fs (d @ [n]) q)}"
    proof -
      have "set (concat (map (\<lambda>n. walk_files fs (d @ [n]))
                   [n \<leftarrow> scandir fs d. is_dir fs (d @ [n]) \<and> lstat fs (d @ [n]) \<noteq> Some DirLink]))
            = (\<Union>n \<in> {n. is_dir fs (d @ [n]) \<and> lstat fs (d @ [n]) \<noteq> Some DirLink}.
                  set (walk_files fs (d @ [n])))"
        using dir_in_scandir[of fs d] by auto
      also have "\<dots> = (\<Union>n \<in> {n. is_dir fs (d @ [n]) \<and> lstat fs (d @ [n]) \<noteq> Some DirLink}.
                          {q. lstat fs q \<noteq> None \<and> \<not> is_dir fs q \<and> listed_under fs (d @ [n]) q})"
        using IH by simp
      also have "\<dots> = {q. lstat fs q \<noteq> None \<and> \<not> is_dir fs q
                   \<and> (\<exists>n. lstat fs (d @ [n]) \<noteq> Some DirLink \<and> listed_under fs (d @ [n]) q)}"
        using listed_under_top by blast
      finally show ?thesis .
    qed
    have "set (walk_files fs d)
          = {q. lstat fs q \<noteq> None \<and> \<not> is_dir fs q \<and> (\<exists>n. q = d @ [n])}
            \<union> {q. lstat fs q \<noteq> None \<and> \<not> is_dir fs q
                   \<and> (\<exists>n. lstat fs (d @ [n]) \<noteq> Some DirLink \<and> listed_under fs (d @ [n]) q)}"
      using True A B by (subst walk_files_unfold) (simp only: if_False not_True_eq_False set_append simp_thms)
    also have "\<dots> = {q. lstat fs q \<noteq> None \<and> \<not> is_dir fs q \<and> listed_under fs d q}"
      using True listed_under_step[of fs d] by blast
    finally show ?thesis .
  qed
qed

subsection \<open>Directories stay directories during a transfer\<close>

lemma is_dir_set_bytes [simp]: "is_dir (set_bytes fs i c) r = is_dir fs r"
  by (simp add: is_dir_lstat)

lemma is_dir_put_entry:
  "is_dir fs r \<Longrightarrow> \<not> is_dir fs p \<or> e = Folder \<Longrightarrow> is_dir (put_entry fs p e) r"
  by (auto simp: is_dir_lstat lstat_put_entry)

lemma is_dir_create_file: "lstat fs p = None \<Longrightarrow> is_dir fs r \<Longrightarrow> is_dir (create_file fs p) r"
  by (auto simp: is_dir_lstat lstat_create_file)

lemma is_dir_os_mkdir: "os_mkdir fs p = Inr fs' \<Longrightarrow> is_dir fs r \<Longrightarrow> is_dir fs' r"
  by (auto simp: os_mkdir_def is_dir_put_entry split: option.splits if_splits)

lemma is_dir_mkdir_exist_ok: "is_dir fs r \<Longrightarrow> is_dir (state_of (mkdir_exist_ok fs p)) r"
  by (cases "os_mkdir fs p") (auto simp: mkdir_exist_ok_def dest: is_dir_os_mkdir)

lemma is_dir_mkdir: "is_dir fs r \<Longrightarrow> is_dir (state_of (mkdir fs p)) r"
proof (induction fs p rule: mkdir.induct)
  case (1 fs p)
  show ?case
  proof (cases "os_mkdir fs p")
    case (Inr fs')
    with "1.prems" is_dir_os_mkdir show ?thesis by (subst mkdir.simps) auto
  next
    case (Inl e)
    show ?thesis
    proof (cases "is_not_found e \<and> parent p \<noteq> p")
      case False
      with Inl "1.prems" show ?thesis by (subst mkdir.simps) auto
    next
      case True
      from "1.IH"[OF Inl] True "1.prems" have ih: "is_dir (state_of (mkdir fs (parent p))) r"
        by simp
      show ?thesis
      proof (cases "mkdir fs (parent p)")
        case (Raised e' fs1)
        with ih Inl True show ?thesis by (subst mkdir.simps) simp
      next
        case (Returned fs1)
        with ih have "is_dir fs1 r" by simp
        from is_dir_mkdir_exist_ok[OF this, of p] Inl True Returned show ?thesis
          by (subst mkdir.simps) simp
      qed
    qed
  qed
qed


lemma is_dir_open_wb: "open_wb fs d = Inr fs1 \<Longrightarrow> is_dir fs r \<Longrightarrow> is_dir fs1 r"
  using open_wb_cases[of fs d fs1] by (auto simp: is_dir_create_file)

lemma is_dir_write_at: "is_dir fs r \<Longrightarrow> is_dir (write_at fs d off buf) r"
  by (auto simp: write_at_def split: option.splits entry.splits)

lemma is_dir_copy_chunks: "is_dir fs r \<Longrightarrow> is_dir (fst (copy_chunks fs s d pn i n sz k)) r"
proof (induction fs s d pn i n sz k rule: copy_chunks.induct)
  case (1 fs s d pn i n sz k)
  show ?case
  proof (cases "read_at fs s k chunk_size = []")
    case True
    with "1.prems" show ?thesis by (subst copy_chunks.simps) simp
  next
    case False
    from "1.IH"[OF refl False refl refl refl] is_dir_write_at[OF "1.prems"]
    show ?thesis using False by (subst copy_chunks.simps) (simp add: Let_def)
  qed
qed

lemma is_dir_copy_with_progress:
  assumes "is_dir fs r"
  shows "is_dir (fst (state_of (copy_with_progress fs s d pn i n))) r"
proof (cases "open_rb fs s")
  case (Inl e)
  with assms show ?thesis by (simp add: copy_with_progress_def Let_def)
next
  case (Inr u)
  show ?thesis
  proof (cases "open_wb fs d")
    case (Inl e)
    with Inr assms show ?thesis by (simp add: copy_with_progress_def Let_def)
  next
    case r: (Inr fs1)
    from is_dir_open_wb[OF r assms] have "is_dir fs1 r" .
    from is_dir_copy_chunks[OF this] Inr r show ?thesis
      by (simp add: copy_with_progress_def Let_def copystat_def case_prod_beta)
  qed
qed

lemma is_dir_copy_body:
  assumes "is_dir (disk w) r"
  shows "is_dir (disk (state_of (copy_body files d n i p w))) r"
proof (cases "rel_path (disk w) files p")
  case (Inl e)
  with assms show ?thesis by (simp add: copy_body_def)
next
  case (Inr rel)
  from is_dir_mkdir[OF assms, of "parent (d @ rel)"]
  have m: "is_dir (state_of (mkdir (disk w) (parent (d @ rel)))) r" .
  show ?thesis
  proof (cases "mkdir (disk w) (parent (d @ rel))")
    case (Raised e fs1)
    with Inr m show ?thesis by (simp add: copy_body_def Let_def)
  next
    case (Returned fs1)
    with m have "is_dir fs1 r" by simp
    from is_dir_copy_with_progress[OF this, of p "d @ rel" "dst_pane w" i n]
    show ?thesis using Inr Returned
      by (cases "copy_with_progress fs1 p (d @ rel) (dst_pane w) i n")
         (simp_all add: copy_body_def Let_def case_prod_beta)
  qed
qed


lemma is_dir_unlink:
  "unlink fs p = Inr fs' \<Longrightarrow> lstat fs p \<noteq> Some DirLink \<Longrightarrow> is_dir fs r \<Longrightarrow> is_dir fs' r"
  by (cases "r = []")
     (auto simp: unlink_def is_dir_lstat lstat_def delete_conv' split: option.splits entry.splits if_splits)

text \<open>An entry that has been copied is a regular file, before and after the copy.\<close>

lemma lstat_write_at [simp]: "lstat (write_at fs d off buf) q = lstat fs q"
  by (simp add: write_at_def split: option.splits entry.splits)

lemma lstat_copy_chunks: "lstat (fst (copy_chunks fs s d pn i n sz k)) q = lstat fs q"
proof (induction fs s d pn i n sz k rule: copy_chunks.induct)
  case (1 fs s d pn i n sz k)
  show ?case
  proof (cases "read_at fs s k chunk_size = []")
    case True
    then show ?thesis by (subst copy_chunks.simps) simp
  next
    case False
    from "1.IH"[OF refl False refl refl refl]
    show ?thesis using False by (subst copy_chunks.simps) (simp add: Let_def)
  qed
qed

lemma lstat_open_wb:
  assumes "open_wb fs d = Inr fs1" "lstat fs q = Some (Reg i)"
  shows "lstat fs1 q = Some (Reg i)"
  using open_wb_cases[OF assms(1)] assms(2)
  by (auto simp: lstat_create_file)

lemma copy_with_progress_source:
  assumes "copy_with_progress fs s d pn i n = Returned (fs', pn')"
  shows "\<exists>j. lstat fs' s = Some (Reg j)"
proof -
  from assms obtain u where "open_rb fs s = Inr u"
    by (cases "open_rb fs s") (simp_all add: copy_with_progress_def Let_def)
  then obtain j where j: "lstat fs s = Some (Reg j)"
    by (auto simp: open_rb_def lookup_def split: option.splits entry.splits node.splits)
  from assms \<open>open_rb fs s = Inr u\<close> obtain fs1 where o: "open_wb fs d = Inr fs1"
    by (cases "open_wb fs d") (simp_all add: copy_with_progress_def Let_def)
  from lstat_open_wb[OF o j] have "lstat fs1 s = Some (Reg j)" .
  then have "lstat (fst (copy_chunks fs1 s d pn i n
                (case getsize fs s of Inr sz \<Rightarrow> sz | Inl e \<Rightarrow> 0) 0)) s = Some (Reg j)"
    by (simp only: lstat_copy_chunks)
  with assms \<open>open_rb fs s = Inr u\<close> o show ?thesis
    by (auto simp: copy_with_progress_def Let_def copystat_def case_prod_beta)
qed

lemma copy_body_source:
  assumes "copy_body files d n i p w = Returned w1"
  shows "\<exists>j. lstat (disk w1) p = Some (Reg j)"
proof (cases "rel_path (disk w) files p")
  case (Inl e)
  with assms show ?thesis by (simp add: copy_body_def)
next
  case (Inr rel)
  show ?thesis
  proof (cases "mkdir (disk w) (parent (d @ rel))")
    case (Raised e fs1)
    with Inr assms show ?thesis by (simp add: copy_body_def Let_def)
  next
    case (Returned fs1)
    show ?thesis
    proof (cases "copy_with_progress fs1 p (d @ rel) (dst_pane w) i n")
      case (Raised e st)
      with Inr Returned assms show ?thesis
        by (simp add: copy_body_def Let_def case_prod_beta)
    next
      case r: (Returned st)
      then have "copy_with_progress fs1 p (d @ rel) (dst_pane w) i n = Returned (fst st, snd st)"
        by simp
      from copy_with_progress_source[OF this] Inr Returned r assms show ?thesis
        by (auto simp: copy_body_def Let_def case_prod_beta)
    qed
  qed
qed

lemma is_dir_move_body:
  assumes "is_dir (disk w) r"
  shows "is_dir (disk (state_of (move_body files d n i p w))) r"
proof (cases "copy_body files d n i p w")
  case (Raised e w1)
  with is_dir_copy_body[OF assms, of files d n i p] show ?thesis by (simp add: move_body_def)
next
  case (Returned w1)
  with is_dir_copy_body[OF assms, of files d n i p] have "is_dir (disk w1) r" by simp
  moreover from copy_body_source[OF Returned] have "lstat (disk w1) p \<noteq> Some DirLink" by auto
  ultimately show ?thesis using Returned
    by (cases "unlink (disk w1) p") (auto simp: move_body_def dest: is_dir_unlink)
qed

lemma is_dir_body_of:
  "is_dir (disk w) r \<Longrightarrow> is_dir (disk (state_of (body_of m files d n i p w))) r"
  by (cases m) (simp_all add: is_dir_copy_body is_dir_move_body)

lemma disk_note_verdict: "disk (state_of (note_verdict p w r)) = disk (state_of r)"
  by (cases r) (simp_all add: note_verdict_def)

lemma is_dir_transfer_loop:
  "is_dir (disk w) r \<Longrightarrow> is_dir (disk (state_of (transfer_loop (body_of m files d n) i ps w))) r"
proof (induction ps arbitrary: i w)
  case Nil
  then show ?case by simp
next
  case (Cons p ps)
  from is_dir_body_of[OF Cons.prems, of m files d n i p]
  have s: "is_dir (disk (state_of (note_verdict p w (body_of m files d n i p w)))) r"
    by (simp add: disk_note_verdict)
  show ?case
  proof (cases "note_verdict p w (body_of m files d n i p w)")
    case (Raised e w1)
    with s show ?thesis by simp
  next
    case (Returned w1)
    with s have "is_dir (disk w1) r" by simp
    from Cons.IH[OF this, of "Suc i"] Returned show ?thesis by simp
  qed
qed


subsection \<open>The plan and the relative paths\<close>

lemma is_file_not_dir: "is_file fs q \<Longrightarrow> \<not> is_dir fs q"
  by (auto simp: is_file_def is_dir_def split: option.splits node.splits)

lemma set_collect_all_files:
  "set (collect_all_files fs srcs)
   = {q. \<exists>p \<in> set srcs. (q = p \<and> is_file fs p)
                       \<or> (lstat fs q \<noteq> None \<and> \<not> is_dir fs q \<and> listed_under fs p q)}"
proof -
  have one: "set (if is_file fs p then [p] else if is_dir fs p then walk_files fs p else [])
             = {q. (q = p \<and> is_file fs p)
                   \<or> (lstat fs q \<noteq> None \<and> \<not> is_dir fs q \<and> listed_under fs p q)}" for p
  proof (cases "is_file fs p")
    case True
    then have "\<not> is_dir fs p" by (rule is_file_not_dir)
    then have "\<And>q. \<not> listed_under fs p q" using listed_under_top by blast
    with True show ?thesis by auto
  next
    case False
    show ?thesis
    proof (cases "is_dir fs p")
      case True
      with False show ?thesis by (auto simp: set_walk_files)
    next
      case nd: False
      then have "\<And>q. \<not> listed_under fs p q" using listed_under_top by blast
      with False nd show ?thesis by auto
    qed
  qed
  have "set (collect_all_files fs srcs)
        = (\<Union>p \<in> set srcs. set (if is_file fs p then [p] else if is_dir fs p then walk_files fs p else []))"
    unfolding collect_all_files_def by (simp only: set_concat set_map image_image)
  also have "\<dots> = (\<Union>p \<in> set srcs. {q. (q = p \<and> is_file fs p)
                   \<or> (lstat fs q \<noteq> None \<and> \<not> is_dir fs q \<and> listed_under fs p q)})"
    by (simp only: one)
  also have "\<dots> = {q. \<exists>p \<in> set srcs. (q = p \<and> is_file fs p)
                       \<or> (lstat fs q \<noteq> None \<and> \<not> is_dir fs q \<and> listed_under fs p q)}"
    by blast
  finally show ?thesis .
qed

lemma collect_all_files_only_files:
  "\<forall>p \<in> set srcs. is_file fs p \<Longrightarrow> collect_all_files fs srcs = srcs"
  by (induction srcs) (simp_all add: collect_all_files_def)

lemma rel_path_name:
  "\<not> (length srcs = 1 \<and> is_dir fs (hd srcs)) \<Longrightarrow> rel_path fs srcs q = Inr (name_path q)"
  by (auto simp: rel_path_def)

lemma name_path_last: "q \<noteq> [] \<Longrightarrow> last q \<noteq> [] \<Longrightarrow> name_path q = [last q]"
  by (auto simp: name_path_def name_of_def joinpath_def)

text \<open>
  C4, as amended. The plan holds exactly the sources that are regular files and, for the
  sources that are directories, every entry that is not a directory and is listed under
  the source: regular files, and also sockets, pipes and links without a target, which are
  not regular files; an entry below a directory that cannot be scanned, or below a link
  to a directory, is left out silently. No directory is a plan entry. When the sources are a non-empty list of regular
  files, the plan is that list (so it has the same length) and every entry's relative path
  is its base name, the last component of its path.
\<close>

theorem plan_holds_the_listed_entries:
  "set (collect_all_files fs srcs)
     = {q. \<exists>p \<in> set srcs. (q = p \<and> is_file fs p)
                         \<or> (lstat fs q \<noteq> None \<and> \<not> is_dir fs q \<and> listed_under fs p q)}
   \<and> (\<forall>q \<in> set (collect_all_files fs srcs). \<not> is_dir fs q)
   \<and> (srcs \<noteq> [] \<and> (\<forall>p \<in> set srcs. is_file fs p)
        \<longrightarrow> collect_all_files fs srcs = srcs
            \<and> length (collect_all_files fs srcs) = length srcs
            \<and> (\<forall>q \<in> set (collect_all_files fs srcs).
                  q \<noteq> [] \<and> last q \<noteq> [] \<longrightarrow> rel_path fs srcs q = Inr [last q]))"
proof -
  have a: "set (collect_all_files fs srcs)
     = {q. \<exists>p \<in> set srcs. (q = p \<and> is_file fs p)
                         \<or> (lstat fs q \<noteq> None \<and> \<not> is_dir fs q \<and> listed_under fs p q)}"
    by (rule set_collect_all_files)
  then have b: "\<forall>q \<in> set (collect_all_files fs srcs). \<not> is_dir fs q"
    using is_file_not_dir by blast
  have c: "collect_all_files fs srcs = srcs
            \<and> length (collect_all_files fs srcs) = length srcs
            \<and> (\<forall>q \<in> set (collect_all_files fs srcs).
                  q \<noteq> [] \<and> last q \<noteq> [] \<longrightarrow> rel_path fs srcs q = Inr [last q])"
    if ne: "srcs \<noteq> []" and fl: "\<forall>p \<in> set srcs. is_file fs p"
  proof -
    have e: "collect_all_files fs srcs = srcs" using fl by (rule collect_all_files_only_files)
    have "is_file fs (hd srcs)" using ne fl by simp
    then have "\<not> is_dir fs (hd srcs)" by (rule is_file_not_dir)
    then have "\<And>q. rel_path fs srcs q = Inr (name_path q)" by (simp add: rel_path_name)
    with e show ?thesis by (simp add: name_path_last)
  qed
  from a b c show ?thesis by blast
qed

theorem plan_holds_the_listed_entries_witness:
  "[[''a'', ''x''], [''a'', ''y'']] \<noteq> []
   \<and> is_file example_disk [''a'', ''x''] \<and> is_file example_disk [''a'', ''y'']
   \<and> collect_all_files example_disk [[''a'', ''x''], [''a'', ''y'']] = [[''a'', ''x''], [''a'', ''y'']]
   \<and> rel_path example_disk [[''a'', ''x''], [''a'', ''y'']] [''a'', ''x''] = Inr [last [''a'', ''x'']]"
proof -
  let ?srcs = "[[''a'', ''x''], [''a'', ''y'']]"
  have h1: "?srcs \<noteq> []" by simp
  have f1: "is_file example_disk [''a'', ''x'']" by code_simp
  have f2: "is_file example_disk [''a'', ''y'']" by code_simp
  have h2: "\<forall>p \<in> set ?srcs. is_file example_disk p" using f1 f2 by simp
  from plan_holds_the_listed_entries[of example_disk ?srcs] h1 h2
  have c: "collect_all_files example_disk ?srcs = ?srcs
           \<and> (\<forall>q \<in> set (collect_all_files example_disk ?srcs).
                 q \<noteq> [] \<and> last q \<noteq> [] \<longrightarrow> rel_path example_disk ?srcs q = Inr [last q])"
    by blast
  then have c1: "collect_all_files example_disk ?srcs = ?srcs" by (rule conjunct1)
  from c have "\<forall>q \<in> set ?srcs. q \<noteq> [] \<and> last q \<noteq> [] \<longrightarrow> rel_path example_disk ?srcs q = Inr [last q]"
    unfolding c1 by blast
  then have c2: "rel_path example_disk ?srcs [''a'', ''x''] = Inr [last [''a'', ''x'']]" by simp
  show ?thesis by (intro conjI) (rule h1, rule f1, rule f2, rule c1, rule c2)
qed

text \<open>
  The claim as stated fails. The plan for the directory \<^verbatim>\<open>/c\<close> holds the socket \<^verbatim>\<open>/c/s\<close> and
  the link without a target \<^verbatim>\<open>/c/l\<close>, which are not regular files, and it does not hold the
  regular files \<^verbatim>\<open>/c/u/f\<close> and \<^verbatim>\<open>/c/k/g\<close>, which lie under \<^verbatim>\<open>/c\<close>, the first in the directory
  \<^verbatim>\<open>/c/u\<close> that cannot be scanned, the second below the link \<^verbatim>\<open>/c/k\<close> to a directory.
\<close>

theorem plan_is_not_the_regular_files:
  "collect_all_files example_disk [[''c'']]
     = [[''c'', ''r''], [''c'', ''h''], [''c'', ''s''], [''c'', ''l'']]
   \<and> \<not> is_file example_disk [''c'', ''s'']
   \<and> \<not> is_file example_disk [''c'', ''l'']
   \<and> is_file example_disk [''c'', ''u'', ''f'']
   \<and> is_file example_disk [''c'', ''k'', ''g'']
   \<and> is_dir example_disk [''c''] \<and> is_dir example_disk [''c'', ''u'']
   \<and> is_dir example_disk [''c'', ''k'']"
proof -
  have a: "collect_all_files example_disk [[''c'']]
     = [[''c'', ''r''], [''c'', ''h''], [''c'', ''s''], [''c'', ''l'']]" by code_simp
  have b: "\<not> is_file example_disk [''c'', ''s'']" by code_simp
  have c: "\<not> is_file example_disk [''c'', ''l'']" by code_simp
  have d: "is_file example_disk [''c'', ''u'', ''f'']" by code_simp
  have e: "is_dir example_disk [''c'']" by code_simp
  have f: "is_dir example_disk [''c'', ''u'']" by code_simp
  have g: "is_file example_disk [''c'', ''k'', ''g'']" by code_simp
  have h: "is_dir example_disk [''c'', ''k'']" by code_simp
  show ?thesis by (intro conjI) (rule a, rule b, rule c, rule d, rule g, rule e, rule f, rule h)
qed

lemma take_parent: "take (length d) q = d \<Longrightarrow> take (length (parent d)) q = parent d"
proof -
  assume a: "take (length d) q = d"
  have "take (length (butlast d)) (take (length d) q) = take (length (butlast d)) q"
    by (simp add: min_def)
  with a have "take (length (butlast d)) q = take (length (butlast d)) d" by simp
  also have "\<dots> = butlast d" by (simp add: butlast_conv_take)
  finally show ?thesis by (simp add: parent_def)
qed

text \<open>
  C3. When the sources are one directory \<open>d\<close>, the relative path of every plan entry \<open>q\<close> is
  \<open>q\<close> relative to the parent of \<open>d\<close>, that is \<open>q\<close> without the components of \<open>d\<close> other than
  its last: it starts with the name of \<open>d\<close>, so the folder is recreated under the destination.
  With two or more sources, or a single plain file, the relative path is the base name, the
  last component of \<open>q\<close> (and the empty path when there is no such name). The loop evaluates
  the rule on the store as it is at each entry; since a directory stays a directory while
  the loop runs, the rule gives there what it gives at the start.
\<close>

theorem relative_path_rule:
  "(srcs = [d] \<and> is_dir fs d \<and> q \<in> set (collect_all_files fs srcs)
      \<longrightarrow> rel_path fs srcs q = Inr (drop (length d - 1) q)
          \<and> butlast d @ drop (length d - 1) q = q
          \<and> (d \<noteq> [] \<longrightarrow> take 1 (drop (length d - 1) q) = [last d]))
   \<and> (2 \<le> length srcs \<or> (\<exists>f. srcs = [f] \<and> is_file fs f)
      \<longrightarrow> (q \<noteq> [] \<and> last q \<noteq> [] \<longrightarrow> rel_path fs srcs q = Inr [last q])
          \<and> (q = [] \<or> last q = [] \<longrightarrow> rel_path fs srcs q = Inr []))
   \<and> (srcs = [d] \<and> is_dir (disk w) d
        \<and> transfer_loop (body_of m srcs dst_dir n) i ps w = Returned w1
      \<longrightarrow> rel_path (disk w1) srcs q = rel_path (disk w) srcs q)"
proof -
  have A: "rel_path fs srcs q = Inr (drop (length d - 1) q)
          \<and> butlast d @ drop (length d - 1) q = q
          \<and> (d \<noteq> [] \<longrightarrow> take 1 (drop (length d - 1) q) = [last d])"
    if s: "srcs = [d]" and dd: "is_dir fs d" and qq: "q \<in> set (collect_all_files fs srcs)"
  proof -
    from qq s have "(q = d \<and> is_file fs d) \<or> listed_under fs d q"
      by (auto simp: set_collect_all_files)
    with dd is_file_not_dir have "listed_under fs d q" by blast
    then have l: "length d < length q" and t: "take (length d) q = d"
      by (auto simp: listed_under_def)
    have lp: "length (parent d) = length d - 1" by (simp add: parent_def)
    from take_parent[OF t] have tp: "take (length (parent d)) q = parent d" .
    then have r: "rel_path fs srcs q = Inr (drop (length d - 1) q)"
      using s dd lp by (simp add: rel_path_def relative_to_def)
    have j: "parent d @ drop (length (parent d)) q = q"
      by (metis tp append_take_drop_id)
    have h: "take 1 (drop (length (parent d)) q) = [last d]" if ne: "d \<noteq> []"
    proof -
      let ?rel = "drop (length (parent d)) q"
      have ld: "length d - length (parent d) = 1" using ne by (cases d) (simp_all add: parent_def)
      have "take (length d) (parent d @ ?rel) = parent d @ take (length d - length (parent d)) ?rel"
        by (simp add: parent_def)
      with j t ld have "parent d @ take 1 ?rel = d" by simp
      also have "d = parent d @ [last d]" using ne by (simp add: parent_def)
      finally show "take 1 ?rel = [last d]" by (simp only: same_append_eq)
    qed
    from r j h lp show ?thesis by (simp add: parent_def)
  qed
  have B: "(q \<noteq> [] \<and> last q \<noteq> [] \<longrightarrow> rel_path fs srcs q = Inr [last q])
          \<and> (q = [] \<or> last q = [] \<longrightarrow> rel_path fs srcs q = Inr [])"
    if "2 \<le> length srcs \<or> (\<exists>f. srcs = [f] \<and> is_file fs f)"
  proof -
    from that have "\<not> (length srcs = 1 \<and> is_dir fs (hd srcs))"
      using is_file_not_dir by auto
    then have "rel_path fs srcs q = Inr (name_path q)" by (rule rel_path_name)
    then show ?thesis by (auto simp: name_path_def name_of_def joinpath_def)
  qed
  have C: "rel_path (disk w1) srcs q = rel_path (disk w) srcs q"
    if s: "srcs = [d]" and dd: "is_dir (disk w) d"
      and tl: "transfer_loop (body_of m srcs dst_dir n) i ps w = Returned w1"
  proof -
    from is_dir_transfer_loop[OF dd, of m srcs dst_dir n i ps] tl have "is_dir (disk w1) d" by simp
    with dd s show ?thesis by (simp add: rel_path_def)
  qed
  from A B C show ?thesis by blast
qed

theorem relative_path_rule_witness:
  "is_dir example_disk [''a'']
   \<and> [''a'', ''x''] \<in> set (collect_all_files example_disk [[''a'']])
   \<and> rel_path example_disk [[''a'']] [''a'', ''x''] = Inr [''a'', ''x'']
   \<and> 2 \<le> length [[''a'', ''x''], [''a'', ''y'']]
   \<and> rel_path example_disk [[''a'', ''x''], [''a'', ''y'']] [''a'', ''x''] = Inr [''x'']"
proof -
  have h1: "is_dir example_disk [''a'']" by code_simp
  have h2: "[''a'', ''x''] \<in> set (collect_all_files example_disk [[''a'']])" by code_simp
  from relative_path_rule[of "[[''a'']]" "[''a'']" example_disk "[''a'', ''x'']"] h1 h2
  have "rel_path example_disk [[''a'']] [''a'', ''x''] = Inr (drop (length [''a''] - 1) [''a'', ''x''])"
    by blast
  then have c: "rel_path example_disk [[''a'']] [''a'', ''x''] = Inr [''a'', ''x'']" by simp
  have h3: "2 \<le> length [[''a'', ''x''], [''a'', ''y'']]" by simp
  have h4: "[''a'', ''x''] \<noteq> [] \<and> last [''a'', ''x''] \<noteq> []" by simp
  from relative_path_rule[of "[[''a'', ''x''], [''a'', ''y'']]" _ example_disk "[''a'', ''x'']"] h3 h4
  have "rel_path example_disk [[''a'', ''x''], [''a'', ''y'']] [''a'', ''x''] = Inr [last [''a'', ''x'']]"
    by blast
  then have e: "rel_path example_disk [[''a'', ''x''], [''a'', ''y'']] [''a'', ''x''] = Inr [''x'']"
    by simp
  show ?thesis by (intro conjI) (rule h1, rule h2, rule c, rule h3, rule e)
qed

end
